theory Spec2Isabelle
  imports Main "HOL-Library.Sublist"
begin

section \<open>Qodo Plus: configuration resolution and process lifecycle\<close>

text \<open>
  A shallow embedding of \<^verbatim>\<open>src/extension.ts\<close>. Strings are \<open>string\<close>; a setting read with
  \<^verbatim>\<open>config.get<string>(..)\<close> and a variable read from \<^verbatim>\<open>process.env\<close> are
  \<open>string option\<close> (\<open>None\<close> is \<^verbatim>\<open>undefined\<close>); a \<^verbatim>\<open>showErrorMessage(..); return\<close> of the
  command handler is a value of \<open>abort\<close>: the missing credential (line 107) and the test
  directory that cannot be created (line 147).
\<close>

subsection \<open>Credential lookup (extension.ts, lines 85-109)\<close>

datatype abort =
    ConfigError
  | FilesystemError string

definition possibleEnvKeys :: "string list" where
  "possibleEnvKeys =
     [''OPENAI_API_KEY'',
      ''FIREWORKS_AI_API_KEY'',
      ''DEEPSEEK_API_KEY'',
      ''ANTHROPIC_API_KEY'',
      ''GEMINI_API_KEY'',
      ''GROQ_API_KEY'',
      ''QODO_API_KEY'']"

text \<open>JavaScript truthiness of a \<^verbatim>\<open>string | undefined\<close>: \<^verbatim>\<open>undefined\<close> and \<^verbatim>\<open>""\<close> are falsy.\<close>

fun truthy :: "string option \<Rightarrow> bool" where
  "truthy None = False"
| "truthy (Some s) = (s \<noteq> [])"

text \<open>
  The \<^verbatim>\<open>for (const envKey of possibleEnvKeys)\<close> loop: the first truthy variable is assigned
  to \<^verbatim>\<open>apiKey\<close> and the loop breaks; when none is, \<^verbatim>\<open>apiKey\<close> keeps its value.
\<close>

fun env_loop :: "(string \<rightharpoonup> string) \<Rightarrow> string list \<Rightarrow> string option \<Rightarrow> string option" where
  "env_loop env [] apiKey = apiKey"
| "env_loop env (envKey # rest) apiKey =
     (if truthy (env envKey) then env envKey else env_loop env rest apiKey)"

definition resolve_api_key :: "string option \<Rightarrow> (string \<rightharpoonup> string) \<Rightarrow> abort + string" where
  "resolve_api_key configured env =
     (let apiKey = (if \<not> truthy configured then env_loop env possibleEnvKeys configured
                    else configured)
      in case apiKey of
           None \<Rightarrow> Inl ConfigError
         | Some k \<Rightarrow> if k = [] then Inl ConfigError else Inr k)"

text \<open>The lookup as the specification words it: the first non-empty value of an ordered chain.\<close>

fun first_non_empty :: "string option list \<Rightarrow> string option" where
  "first_non_empty [] = None"
| "first_non_empty (None # vs) = first_non_empty vs"
| "first_non_empty (Some v # vs) = (if v = [] then first_non_empty vs else Some v)"

subsection \<open>Node's \<^verbatim>\<open>path\<close> module on a POSIX host\<close>

text \<open>
  The handler calls \<^verbatim>\<open>path.relative\<close>, \<^verbatim>\<open>path.basename\<close>, \<^verbatim>\<open>path.dirname\<close> and \<^verbatim>\<open>path.join\<close>.
  They belong to the Node runtime; the definitions below follow \<^verbatim>\<open>path.posix\<close>
  (\<^verbatim>\<open>path.sep = '/'\<close>), which works on the segments between separators.
\<close>

definition path_sep :: char where
  "path_sep = CHR ''/''"

text \<open>\<^verbatim>\<open>s.split(sep)\<close> for a one-character separator, and \<^verbatim>\<open>parts.join(glue)\<close>.\<close>

fun split_on :: "char \<Rightarrow> string \<Rightarrow> string list" where
  "split_on sep [] = [[]]"
| "split_on sep (c # cs) =
     (if c = sep then [] # split_on sep cs
      else (case split_on sep cs of
              [] \<Rightarrow> [[c]]
            | seg # segs \<Rightarrow> (c # seg) # segs))"

fun join_with :: "string \<Rightarrow> string list \<Rightarrow> string" where
  "join_with glue [] = []"
| "join_with glue [seg] = seg"
| "join_with glue (seg # segs) = seg @ glue @ join_with glue segs"

text \<open>
  \<^verbatim>\<open>normalizeString\<close>: empty and \<^verbatim>\<open>.\<close> segments are dropped; \<^verbatim>\<open>..\<close> removes the segment
  before it, is kept when there is none and the path is relative (\<open>allowAboveRoot\<close>), and is
  dropped at the root of an absolute path. The accumulator holds the result reversed.
\<close>

fun normalizeString :: "bool \<Rightarrow> string list \<Rightarrow> string list \<Rightarrow> string list" where
  "normalizeString allowAboveRoot res [] = rev res"
| "normalizeString allowAboveRoot res (seg # segs) =
     (if seg = [] \<or> seg = ''.'' then normalizeString allowAboveRoot res segs
      else if seg = ''..'' then
        (case res of
           [] \<Rightarrow> normalizeString allowAboveRoot (if allowAboveRoot then [''..''] else []) segs
         | last_seg # earlier \<Rightarrow>
             if last_seg = ''..''
             then normalizeString allowAboveRoot
                    (if allowAboveRoot then ''..'' # res else res) segs
             else normalizeString allowAboveRoot earlier segs)
      else normalizeString allowAboveRoot (seg # res) segs)"

definition isAbsolute :: "string \<Rightarrow> bool" where
  "isAbsolute p = (case p of [] \<Rightarrow> False | c # _ \<Rightarrow> c = CHR ''/'')"

definition normalize :: "string \<Rightarrow> string" where
  "normalize p =
     (if p = [] then ''.''
      else
        let trailingSeparator = (last p = CHR ''/'');
            body = join_with ''/'' (normalizeString (\<not> isAbsolute p) [] (split_on CHR ''/'' p))
        in if body = [] then
             (if isAbsolute p then ''/'' else if trailingSeparator then ''./'' else ''.'')
           else (if isAbsolute p then ''/'' else []) @ body
                  @ (if trailingSeparator then ''/'' else []))"

text \<open>\<^verbatim>\<open>path.join(...args)\<close>: the non-empty arguments joined by \<^verbatim>\<open>/\<close>, then normalised.\<close>

definition path_join :: "string list \<Rightarrow> string" where
  "path_join args =
     (let joined = join_with ''/'' (filter (\<lambda>arg. arg \<noteq> []) args)
      in if joined = [] then ''.'' else normalize joined)"

text \<open>
  \<^verbatim>\<open>path.resolve(p)\<close> with the process working directory \<open>cwd\<close> (an absolute path): an absolute
  normalised path without a trailing separator.
\<close>

definition path_resolve :: "string \<Rightarrow> string \<Rightarrow> string" where
  "path_resolve cwd p =
     (let full = (if isAbsolute p then p else cwd @ ''/'' @ p)
      in ''/'' @ join_with ''/'' (normalizeString False [] (split_on CHR ''/'' full)))"

text \<open>
  \<^verbatim>\<open>path.relative(from, to)\<close>: both paths are resolved, their common leading segments are
  removed, and the result climbs out of what is left of \<open>from\<close> and descends what is left of
  \<open>to\<close>.
\<close>

fun strip_common :: "string list \<Rightarrow> string list \<Rightarrow> string list \<times> string list" where
  "strip_common (x # xs) (y # ys) = (if x = y then strip_common xs ys else (x # xs, y # ys))"
| "strip_common xs ys = (xs, ys)"

definition path_relative :: "string \<Rightarrow> string \<Rightarrow> string \<Rightarrow> string" where
  "path_relative cwd from to =
     (if from = to then []
      else
        let from_segs = normalizeString False []
                          (split_on CHR ''/'' (if isAbsolute from then from else cwd @ ''/'' @ from));
            to_segs = normalizeString False []
                          (split_on CHR ''/'' (if isAbsolute to then to else cwd @ ''/'' @ to))
        in case strip_common from_segs to_segs of
             (up, down) \<Rightarrow> join_with ''/'' (map (\<lambda>_. ''..'') up @ down))"

text \<open>
  \<^verbatim>\<open>path.basename(p)\<close>: trailing separators are skipped, the result is the last segment.
\<close>

definition path_basename :: "string \<Rightarrow> string" where
  "path_basename p =
     rev (takeWhile (\<lambda>c. c \<noteq> CHR ''/'') (dropWhile (\<lambda>c. c = CHR ''/'') (rev p)))"

text \<open>
  \<^verbatim>\<open>path.dirname(p)\<close>: the loop runs from the last character down to index 1 and stops at the
  first separator found after a non-separator (\<open>matchedSlash\<close> false). \<open>dirname_scan\<close> gets
  the characters at indices \<open>\<ge> 1\<close> reversed and returns those before the stop, reversed.
\<close>

fun dirname_scan :: "bool \<Rightarrow> string \<Rightarrow> string option" where
  "dirname_scan matchedSlash [] = None"
| "dirname_scan matchedSlash (c # cs) =
     (if c = CHR ''/'' then (if \<not> matchedSlash then Some cs else dirname_scan matchedSlash cs)
      else dirname_scan False cs)"

definition path_dirname :: "string \<Rightarrow> string" where
  "path_dirname p =
     (case p of
        [] \<Rightarrow> ''.''
      | c0 # rest \<Rightarrow>
          (let hasRoot = (c0 = CHR ''/'') in
           case dirname_scan True (rev rest) of
             None \<Rightarrow> if hasRoot then ''/'' else ''.''
           | Some front \<Rightarrow> if hasRoot \<and> front = [] then ''//'' else c0 # rev front))"

subsection \<open>Path context (extension.ts, lines 75-82)\<close>

definition toPosixPath :: "string \<Rightarrow> string" where
  "toPosixPath p = join_with ''/'' (split_on path_sep p)"

record path_context =
  sourceRelPath :: string
  fileName :: string
  sourceDir :: string

definition derive_context :: "string \<Rightarrow> string \<Rightarrow> string \<Rightarrow> path_context" where
  "derive_context cwd workspaceRoot sourceAbsPath =
     (let rel = toPosixPath (path_relative cwd workspaceRoot sourceAbsPath)
      in \<lparr> sourceRelPath = rel,
           fileName = path_basename sourceAbsPath,
           sourceDir = toPosixPath (path_dirname rel) \<rparr>)"

subsection \<open>Placeholder substitution (extension.ts, lines 111-135)\<close>

text \<open>
  \<^verbatim>\<open>template.replace(/{token}/g, value)\<close> with a string \<open>value\<close>: every match of the
  literal pattern, found from left to right without overlap, is replaced by the expansion of
  \<open>value\<close>, in which \<^verbatim>\<open>$$\<close> stands for \<^verbatim>\<open>$\<close>, \<^verbatim>\<open>$&\<close> for the match, \<^verbatim>\<open>$`\<close> for the text
  before the match and \<^verbatim>\<open>$'\<close> for the text after it (ECMAScript GetSubstitution; the patterns
  have no capture group, so \<^verbatim>\<open>$1\<close> and \<^verbatim>\<open>$<name>\<close> stay as written).
\<close>

fun getSubstitution :: "string \<Rightarrow> string \<Rightarrow> string \<Rightarrow> string \<Rightarrow> string" where
  "getSubstitution matched preceding following (c # d # rest) =
     (if c = CHR ''$'' then
        (if d = CHR ''$'' then CHR ''$'' # getSubstitution matched preceding following rest
         else if d = CHR ''&'' then matched @ getSubstitution matched preceding following rest
         else if d = CHR 0x60 then preceding @ getSubstitution matched preceding following rest
         else if d = CHR 0x27 then following @ getSubstitution matched preceding following rest
         else c # getSubstitution matched preceding following (d # rest))
      else c # getSubstitution matched preceding following (d # rest))"
| "getSubstitution matched preceding following template = template"

text \<open>
  \<open>replace_from pat value preceding s\<close> scans \<open>s\<close>, the part of the subject that follows
  \<open>preceding\<close>. The patterns of the source are the four non-empty token texts.
\<close>

fun replace_from :: "string \<Rightarrow> string \<Rightarrow> string \<Rightarrow> string \<Rightarrow> string" where
  "replace_from pat replacement preceding [] = []"
| "replace_from pat replacement preceding (c # cs) =
     (if prefix pat (c # cs) then
        getSubstitution pat preceding (drop (length pat) (c # cs)) replacement
          @ replace_from pat replacement (preceding @ pat) (drop (length pat - 1) cs)
      else c # replace_from pat replacement (preceding @ [c]) cs)"

definition replace_global :: "string \<Rightarrow> string \<Rightarrow> string \<Rightarrow> string" where
  "replace_global pat replacement s = replace_from pat replacement [] s"

text \<open>The chain of lines 123-126 and 128-131, and the chain of lines 133-135.\<close>

definition resolve_path_template :: "string \<Rightarrow> path_context \<Rightarrow> string" where
  "resolve_path_template tpl ctx =
     replace_global ''{sourceDir}'' (sourceDir ctx)
       (replace_global ''{fileName}'' (fileName ctx)
          (replace_global ''{relativeFilePath}'' (sourceRelPath ctx) tpl))"

definition resolve_test_command :: "string \<Rightarrow> string \<Rightarrow> path_context \<Rightarrow> string" where
  "resolve_test_command tpl finalTestPath ctx =
     replace_global ''{sourceDir}'' (sourceDir ctx)
       (replace_global ''{testFilePath}'' finalTestPath tpl)"

text \<open>\<^verbatim>\<open>config.get<string>(name) || fallback\<close>.\<close>

fun or_default :: "string option \<Rightarrow> string \<Rightarrow> string" where
  "or_default None fallback = fallback"
| "or_default (Some s) fallback = (if s = [] then fallback else s)"

record settings =
  apiKey :: "string option"
  model :: "string option"
  baseUrl :: "string option"
  sourceFilePath :: "string option"
  testFilePath :: "string option"
  codeCoverageReportPath :: "string option"
  testCommand :: "string option"
  coverageType :: "string option"

definition default_settings :: settings where
  "default_settings =
     \<lparr> apiKey = None, model = None, baseUrl = None, sourceFilePath = None,
       testFilePath = None, codeCoverageReportPath = None, testCommand = None,
       coverageType = None \<rparr>"

record resolved_invocation =
  finalSourcePath :: string
  finalTestPath :: string
  finalTestCommand :: string

definition resolve_invocation :: "settings \<Rightarrow> path_context \<Rightarrow> resolved_invocation" where
  "resolve_invocation config ctx =
     (let sourcePathTpl = or_default (sourceFilePath config) ''{relativeFilePath}'';
          testPathTpl = or_default (testFilePath config) ''tests/test_{fileName}'';
          testCmdTpl = or_default (testCommand config)
            ''pytest {testFilePath} --cov={sourceDir} --cov-branch --cov-report=xml --cov-report=html'';
          test_path = resolve_path_template testPathTpl ctx
      in \<lparr> finalSourcePath = resolve_path_template sourcePathTpl ctx,
           finalTestPath = test_path,
           finalTestCommand = resolve_test_command testCmdTpl test_path ctx \<rparr>)"

text \<open>
  Templates seen as the specification describes them: literal text between occurrences of the
  four recognised tokens, and the one-pass substitution that replaces every token that has a
  value and leaves the others as written.
\<close>

datatype token = RelativeFilePath | FileName | SourceDir | TestFilePath

fun token_text :: "token \<Rightarrow> string" where
  "token_text RelativeFilePath = ''{relativeFilePath}''"
| "token_text FileName = ''{fileName}''"
| "token_text SourceDir = ''{sourceDir}''"
| "token_text TestFilePath = ''{testFilePath}''"

datatype segment = Lit string | Tok token

fun segment_text :: "segment \<Rightarrow> string" where
  "segment_text (Lit s) = s"
| "segment_text (Tok t) = token_text t"

definition render :: "segment list \<Rightarrow> string" where
  "render segs = concat (map segment_text segs)"




text \<open>Literal text and values that can neither start a token nor trigger a \<^verbatim>\<open>$\<close> expansion.\<close>

definition brace_free :: "string \<Rightarrow> bool" where
  "brace_free s = (CHR ''{'' \<notin> set s)"

definition plain_value :: "string \<Rightarrow> bool" where
  "plain_value v = (CHR ''{'' \<notin> set v \<and> CHR ''$'' \<notin> set v)"

fun plain_literals :: "segment list \<Rightarrow> bool" where
  "plain_literals [] = True"
| "plain_literals (Lit s # segs) = (brace_free s \<and> plain_literals segs)"
| "plain_literals (Tok t # segs) = plain_literals segs"

text \<open>One global replacement seen on segments: the occurrences of one token become text.\<close>

fun instantiate :: "token \<Rightarrow> string \<Rightarrow> segment \<Rightarrow> segment" where
  "instantiate t v (Lit s) = Lit s"
| "instantiate t v (Tok t') = (if t' = t then Lit v else Tok t')"

text \<open>\<open>occurs pat s\<close>: the text \<open>pat\<close> occurs somewhere in \<open>s\<close>.\<close>

fun occurs :: "string \<Rightarrow> string \<Rightarrow> bool" where
  "occurs pat [] = (pat = [])"
| "occurs pat (c # cs) = (prefix pat (c # cs) \<or> occurs pat cs)"

text \<open>
  The precondition under which the specification states idempotence: no token that occurs in
  the template has a value in which a token text occurs.
\<close>

definition non_adversarial :: "string \<Rightarrow> path_context \<Rightarrow> bool" where
  "non_adversarial tpl ctx =
     list_all (\<lambda>(tok, v). occurs tok tpl \<longrightarrow>
                 list_all (\<lambda>tok'. \<not> occurs tok' v)
                   [''{relativeFilePath}'', ''{fileName}'', ''{sourceDir}''])
       [(''{relativeFilePath}'', sourceRelPath ctx),
        (''{fileName}'', fileName ctx),
        (''{sourceDir}'', sourceDir ctx)]"

subsection \<open>Test directory (extension.ts, lines 141-150)\<close>

definition testDirAbs :: "string \<Rightarrow> string \<Rightarrow> string" where
  "testDirAbs workspaceRoot test_path = path_join [workspaceRoot, path_dirname test_path]"

text \<open>
  \<^verbatim>\<open>fs.mkdirSync(dir, {recursive: true})\<close> creates \<open>dir\<close> and every ancestor of it that is
  missing. \<open>directory_chain [] dir\<close> lists them: the prefixes of \<open>dir\<close> that end before a
  separator, and \<open>dir\<close> itself (the root always exists and is not listed).
\<close>

fun directory_chain :: "string \<Rightarrow> string \<Rightarrow> string list" where
  "directory_chain seen [] = [seen]"
| "directory_chain seen (c # cs) =
     (if c = CHR ''/'' \<and> seen \<noteq> [] then seen # directory_chain (seen @ [c]) cs
      else directory_chain (seen @ [c]) cs)"

text \<open>
  \<^verbatim>\<open>if (!fs.existsSync(testDirAbs)) { try { fs.mkdirSync(testDirAbs, {recursive: true}) } catch .. }\<close>:
  \<open>existing\<close> is the set of paths that exist, \<open>mkdir_error\<close> tells whether the host refuses to
  create a directory (with the error's message).
\<close>

definition ensure_test_dir ::
  "(string \<Rightarrow> string option) \<Rightarrow> string set \<Rightarrow> string \<Rightarrow> string \<Rightarrow> abort + string set" where
  "ensure_test_dir mkdir_error existing workspaceRoot test_path =
     (let dir = testDirAbs workspaceRoot test_path
      in if dir \<notin> existing then
           (case mkdir_error dir of
              Some msg \<Rightarrow> Inl (FilesystemError msg)
            | None \<Rightarrow> Inr (existing \<union> set (directory_chain [] dir)))
         else Inr existing)"

text \<open>
  The child is spawned with \<^verbatim>\<open>cwd: workspaceRoot\<close> and gets the test path as an argument, so
  the file it names is the path resolved against the workspace root. \<open>is_inside root p\<close>
  says that the absolute path \<open>p\<close> is \<open>root\<close> or lies below it.
\<close>

definition test_file_location :: "string \<Rightarrow> string \<Rightarrow> string" where
  "test_file_location workspaceRoot test_path = path_resolve workspaceRoot test_path"

definition is_inside :: "string \<Rightarrow> string \<Rightarrow> bool" where
  "is_inside root p = (p = root \<or> prefix (root @ ''/'') p)"

definition clean_segment :: "string \<Rightarrow> bool" where
  "clean_segment seg = (seg \<noteq> [] \<and> seg \<noteq> ''.'' \<and> seg \<noteq> ''..'' \<and> CHR ''/'' \<notin> set seg)"

subsection \<open>Process supervision (extension.ts, lines 180-229)\<close>

datatype notification =
    InformationMessage string
  | WarningMessage string
  | ErrorMessage string

text \<open>
  What the handlers registered on the child process and on the cancellation token change:
  the token's flag, the calls of \<^verbatim>\<open>childProcess.kill()\<close>, the notifications shown, the text of
  the output channel, and the calls of the promise's \<^verbatim>\<open>resolve\<close>.
\<close>

record run_state =
  isCancellationRequested :: bool
  killCalls :: nat
  killError :: "string option"
  notifications :: "notification list"
  channel :: string
  resolveCalls :: nat

text \<open>
  \<open>killError\<close> is the operating system's answer to a signal sent to the child: \<open>None\<close> when
  the signal is delivered (or the child is already gone), \<open>Some msg\<close> when it is refused, in
  which case \<^verbatim>\<open>childProcess.kill()\<close> emits \<^verbatim>\<open>error\<close> before it returns.
\<close>

definition spawned :: run_state where
  "spawned = \<lparr> isCancellationRequested = False, killCalls = 0, killError = None,
               notifications = [], channel = [], resolveCalls = 0 \<rparr>"

text \<open>The decimal text of a number, as \<^verbatim>\<open>String(n)\<close> gives it for an integer.\<close>

fun decimal_digits :: "nat \<Rightarrow> string" where
  "decimal_digits n =
     (if 10 \<le> n then decimal_digits (n div 10) else []) @ [''0123456789'' ! (n mod 10)]"

declare decimal_digits.simps [simp del]

definition number_text :: "int \<Rightarrow> string" where
  "number_text i =
     (if 0 \<le> i then decimal_digits (nat i) else CHR ''-'' # decimal_digits (nat (- i)))"

text \<open>\<^verbatim>\<open>${code}\<close> for the \<^verbatim>\<open>number | null\<close> that the \<^verbatim>\<open>close\<close> event carries.\<close>

fun code_text :: "int option \<Rightarrow> string" where
  "code_text None = ''null''"
| "code_text (Some n) = number_text n"

definition appendLine :: "string \<Rightarrow> string \<Rightarrow> string" where
  "appendLine text line = text @ line @ [CHR 0x0A]"

definition cancelled_message :: notification where
  "cancelled_message = WarningMessage ''Qodo Plus: The test generation process has been cancelled''"

definition success_message :: notification where
  "success_message = InformationMessage ''Qodo Plus: Successfully completed test generation''"

definition exit_code_message :: "int option \<Rightarrow> notification" where
  "exit_code_message code =
     ErrorMessage (''Qodo Plus: Error (Code: '' @ code_text code @ ''). Check output for details'')"

definition launch_error_message :: "string \<Rightarrow> notification" where
  "launch_error_message msg = ErrorMessage (''Launch error: '' @ msg)"

definition onData :: "string \<Rightarrow> run_state \<Rightarrow> run_state" where
  "onData chunk st = st\<lparr> channel := channel st @ chunk \<rparr>"

definition onClose :: "int option \<Rightarrow> run_state \<Rightarrow> run_state" where
  "onClose code st =
     (if isCancellationRequested st then st
      else if code = Some 0 then
        st\<lparr> notifications := notifications st @ [success_message],
            channel := appendLine (channel st) (CHR 0x0A # ''[DONE] Complete.''),
            resolveCalls := Suc (resolveCalls st) \<rparr>
      else
        st\<lparr> notifications := notifications st @ [exit_code_message code],
            channel := appendLine (channel st) (CHR 0x0A # ''[ERROR] Exit code: '' @ code_text code),
            resolveCalls := Suc (resolveCalls st) \<rparr>)"

definition onError :: "string \<Rightarrow> run_state \<Rightarrow> run_state" where
  "onError msg st =
     st\<lparr> notifications := notifications st @ [launch_error_message msg],
         channel := appendLine (channel st) (''[FATAL] '' @ msg),
         resolveCalls := Suc (resolveCalls st) \<rparr>"

text \<open>
  \<^verbatim>\<open>childProcess.kill()\<close> (line 199): a refused signal runs the listeners of \<^verbatim>\<open>error\<close>, here
  \<open>onError\<close>, inside the call.
\<close>

definition childProcess_kill :: "run_state \<Rightarrow> run_state" where
  "childProcess_kill st =
     (case killError st of
        None \<Rightarrow> st\<lparr> killCalls := Suc (killCalls st) \<rparr>
      | Some msg \<Rightarrow> onError msg (st\<lparr> killCalls := Suc (killCalls st) \<rparr>))"

definition onCancellationRequested :: "run_state \<Rightarrow> run_state" where
  "onCancellationRequested st =
     (let killed = childProcess_kill st
      in killed\<lparr> notifications := notifications killed @ [cancelled_message],
                 channel := appendLine (channel killed)
                              (CHR 0x0A # ''[WARN] Process cancelled by user''),
                 resolveCalls := Suc (resolveCalls killed) \<rparr>)"

text \<open>
  The events the host delivers, one at a time, to those handlers. A cancellation token fires
  its listeners once: a request on a token that is already cancelled does nothing.
\<close>

datatype proc_event =
    CancellationRequested
  | StdoutData string
  | StderrData string
  | Close "int option"
  | ProcError string

fun dispatch :: "run_state \<Rightarrow> proc_event \<Rightarrow> run_state" where
  "dispatch st CancellationRequested =
     (if isCancellationRequested st then st
      else onCancellationRequested (st\<lparr> isCancellationRequested := True \<rparr>))"
| "dispatch st (StdoutData chunk) = onData chunk st"
| "dispatch st (StderrData chunk) = onData chunk st"
| "dispatch st (Close code) = onClose code st"
| "dispatch st (ProcError msg) = onError msg st"

definition supervise :: "proc_event list \<Rightarrow> run_state" where
  "supervise events = foldl dispatch spawned events"

text \<open>The same run on a host that refuses the signal with the message \<open>msg\<close>.\<close>

definition supervise_kill_refused :: "string \<Rightarrow> proc_event list \<Rightarrow> run_state" where
  "supervise_kill_refused msg events = foldl dispatch (spawned\<lparr> killError := Some msg \<rparr>) events"

text \<open>The outcome that each kind of notification presents.\<close>

datatype outcome = Success | Failure | Cancelled

fun outcome_of :: "notification \<Rightarrow> outcome" where
  "outcome_of (InformationMessage _) = Success"
| "outcome_of (WarningMessage _) = Cancelled"
| "outcome_of (ErrorMessage _) = Failure"

definition outcomes :: "run_state \<Rightarrow> outcome list" where
  "outcomes st = map outcome_of (notifications st)"

fun is_stream_data :: "proc_event \<Rightarrow> bool" where
  "is_stream_data (StdoutData _) = True"
| "is_stream_data (StderrData _) = True"
| "is_stream_data _ = False"

fun is_proc_error :: "proc_event \<Rightarrow> bool" where
  "is_proc_error (ProcError _) = True"
| "is_proc_error _ = False"

text \<open>The launch-error notifications that a sequence of events produces.\<close>

fun launch_errors :: "proc_event list \<Rightarrow> notification list" where
  "launch_errors [] = []"
| "launch_errors (ProcError msg # es) = launch_error_message msg # launch_errors es"
| "launch_errors (e # es) = launch_errors es"

subsection \<open>Environment bootstrap (extension.ts, lines 10-57)\<close>

text \<open>
  \<open>host\<close> is what \<^verbatim>\<open>setupPythonEnvironment\<close> reads and changes: the paths that exist, the
  commands handed to \<^verbatim>\<open>execAsync\<close> (command line and working directory), the output channel,
  the notifications and the progress reports. \<^verbatim>\<open>path.join\<close> of the host platform is the
  parameter \<open>join\<close> (\<^verbatim>\<open>path.win32\<close> joins with a backslash).
\<close>

record host =
  files :: "string set"
  commands :: "(string \<times> string) list"
  outputLog :: string
  messages :: "notification list"
  progressReports :: "string list"

datatype exec_result = ExecFailed string | ExecOk string string

text \<open>
  The function is asynchronous: it runs until an \<^verbatim>\<open>await execAsync(..)\<close>, and goes on when
  that command has finished. \<open>AwaitVenv\<close> and \<open>AwaitPip\<close> are the two suspension points,
  \<open>Returned b\<close> is the resolved promise.
\<close>

datatype bootstrap = AwaitVenv | AwaitPip | Returned bool

definition qodoCoverDir :: "(string list \<Rightarrow> string) \<Rightarrow> string \<Rightarrow> string" where
  "qodoCoverDir join extensionPath = join [extensionPath, ''python_service'', ''qodo-cover'']"

definition venvRoot :: "(string list \<Rightarrow> string) \<Rightarrow> string \<Rightarrow> string" where
  "venvRoot join extensionPath = join [qodoCoverDir join extensionPath, ''venv'']"

definition coverAgentPath :: "(string list \<Rightarrow> string) \<Rightarrow> bool \<Rightarrow> string \<Rightarrow> string" where
  "coverAgentPath join isWindows extensionPath =
     join [venvRoot join extensionPath,
           if isWindows then ''Scripts'' else ''bin'',
           if isWindows then ''cover-agent.exe'' else ''cover-agent'']"

definition venv_command :: "bool \<Rightarrow> string" where
  "venv_command isWindows = (if isWindows then ''py'' else ''python3'') @ '' -3.11 -m venv venv''"

definition pip_command :: "(string list \<Rightarrow> string) \<Rightarrow> bool \<Rightarrow> string" where
  "pip_command join isWindows =
     (if isWindows then join [''venv'', ''Scripts'', ''pip''] else join [''venv'', ''bin'', ''pip''])
       @ '' install -e .''"

text \<open>The \<^verbatim>\<open>catch\<close> block (lines 51-55).\<close>

definition setup_failed :: "string \<Rightarrow> host \<Rightarrow> bootstrap \<times> host" where
  "setup_failed msg h =
     (Returned False,
      h\<lparr> messages := messages h @
            [ErrorMessage ''Environment setup error: Please check if Python is installed on your machine''],
         outputLog := appendLine (outputLog h) (''[ERROR] '' @ msg) \<rparr>)"

text \<open>Lines 11-35: from the call to the first \<^verbatim>\<open>await\<close>, or to \<^verbatim>\<open>return true\<close>.\<close>

definition setup_begin ::
  "(string list \<Rightarrow> string) \<Rightarrow> bool \<Rightarrow> string \<Rightarrow> host \<Rightarrow> bootstrap \<times> host" where
  "setup_begin join isWindows extensionPath h =
     (if coverAgentPath join isWindows extensionPath \<in> files h then (Returned True, h)
      else
        (AwaitVenv,
         h\<lparr> outputLog := appendLine (outputLog h) ''[INFO] Creating a Virtual Environment (venv)'',
            commands := commands h @ [(venv_command isWindows, qodoCoverDir join extensionPath)] \<rparr>))"

text \<open>Lines 37-55: what follows the completion of the awaited command.\<close>

fun setup_resume ::
  "(string list \<Rightarrow> string) \<Rightarrow> bool \<Rightarrow> string \<Rightarrow> bootstrap \<Rightarrow> exec_result \<Rightarrow> host
     \<Rightarrow> bootstrap \<times> host" where
  "setup_resume join isWindows extensionPath (Returned b) result h = (Returned b, h)"
| "setup_resume join isWindows extensionPath task (ExecFailed msg) h = setup_failed msg h"
| "setup_resume join isWindows extensionPath AwaitVenv (ExecOk out err) h =
     (AwaitPip,
      h\<lparr> progressReports := progressReports h @
            [''Downloading the library (this may take a few minutes)''],
         outputLog := appendLine (outputLog h) ''[INFO] Running pip install -e .'',
         commands := commands h @ [(pip_command join isWindows, qodoCoverDir join extensionPath)] \<rparr>)"
| "setup_resume join isWindows extensionPath AwaitPip (ExecOk out err) h =
     (Returned True,
      h\<lparr> outputLog :=
            appendLine
              (if err \<noteq> [] then appendLine (appendLine (outputLog h) out) (''[WARN] '' @ err)
               else appendLine (outputLog h) out)
              ''[INFO] Python environment setup complete'',
         messages := messages h @
            [InformationMessage
               ''Qodo Plus: Environment setup complete. Starting test generation''] \<rparr>)"

fun pending :: "bootstrap \<Rightarrow> bool" where
  "pending (Returned _) = False"
| "pending _ = True"

text \<open>
  One call run to its end, the host's answer to each command given by \<open>exec\<close>.
\<close>

definition setupPythonEnvironment ::
  "(string \<times> string \<Rightarrow> exec_result) \<Rightarrow> (string list \<Rightarrow> string) \<Rightarrow> bool \<Rightarrow> string \<Rightarrow> host
     \<Rightarrow> bool \<times> host" where
  "setupPythonEnvironment exec join isWindows extensionPath h =
     (case setup_begin join isWindows extensionPath h of
        (Returned b, h0) \<Rightarrow> (b, h0)
      | (task0, h0) \<Rightarrow>
          (case setup_resume join isWindows extensionPath task0
                  (exec (venv_command isWindows, qodoCoverDir join extensionPath)) h0 of
             (Returned b, h1) \<Rightarrow> (b, h1)
           | (task1, h1) \<Rightarrow>
               (case setup_resume join isWindows extensionPath task1
                       (exec (pip_command join isWindows, qodoCoverDir join extensionPath)) h1 of
                  (task2, h2) \<Rightarrow> (task2 = Returned True, h2))))"

text \<open>
  Several invocations of the command on the single-threaded event loop: a trigger runs a new
  call up to its first \<^verbatim>\<open>await\<close>, the completion of a command resumes the call that waits for
  it, and files may appear in between. \<open>tasks\<close> holds one entry per call, in trigger order.
\<close>

record bootstrap_system =
  system_host :: host
  tasks :: "bootstrap list"

datatype loop_event = Trigger | ExecDone nat exec_result | FileAppears string

fun loop_step ::
  "(string list \<Rightarrow> string) \<Rightarrow> bool \<Rightarrow> string \<Rightarrow> bootstrap_system \<Rightarrow> loop_event
     \<Rightarrow> bootstrap_system" where
  "loop_step join isWindows extensionPath sys Trigger =
     (case setup_begin join isWindows extensionPath (system_host sys) of
        (task, h) \<Rightarrow> \<lparr> system_host = h, tasks = tasks sys @ [task] \<rparr>)"
| "loop_step join isWindows extensionPath sys (ExecDone i result) =
     (if i < length (tasks sys) then
        (case setup_resume join isWindows extensionPath (tasks sys ! i) result (system_host sys) of
           (task, h) \<Rightarrow> \<lparr> system_host = h, tasks = (tasks sys)[i := task] \<rparr>)
      else sys)"
| "loop_step join isWindows extensionPath sys (FileAppears p) =
     sys\<lparr> system_host := (system_host sys)\<lparr> files := insert p (files (system_host sys)) \<rparr> \<rparr>"

definition loop_run ::
  "(string list \<Rightarrow> string) \<Rightarrow> bool \<Rightarrow> string \<Rightarrow> bootstrap_system \<Rightarrow> loop_event list
     \<Rightarrow> bootstrap_system" where
  "loop_run join isWindows extensionPath sys events =
     foldl (loop_step join isWindows extensionPath) sys events"

definition in_flight :: "bootstrap_system \<Rightarrow> nat" where
  "in_flight sys = length (filter pending (tasks sys))"

definition fresh_host :: host where
  "fresh_host = \<lparr> files = {}, commands = [], outputLog = [], messages = [], progressReports = [] \<rparr>"

definition idle_system :: bootstrap_system where
  "idle_system = \<lparr> system_host = fresh_host, tasks = [] \<rparr>"

text \<open>
  \<open>non_overlapping\<close>: every trigger of the trace arrives when no bootstrap is in progress.
\<close>

fun non_overlapping ::
  "(string list \<Rightarrow> string) \<Rightarrow> bool \<Rightarrow> string \<Rightarrow> bootstrap_system \<Rightarrow> loop_event list \<Rightarrow> bool" where
  "non_overlapping join isWindows extensionPath sys [] = True"
| "non_overlapping join isWindows extensionPath sys (e # es) =
     ((e = Trigger \<longrightarrow> in_flight sys = 0)
      \<and> non_overlapping join isWindows extensionPath
          (loop_step join isWindows extensionPath sys e) es)"

section \<open>Properties\<close>

subsection \<open>Credential lookup\<close>

lemma env_loop_found:
  "first_non_empty (map env keys) = Some k \<Longrightarrow> env_loop env keys cur = Some k \<and> k \<noteq> []"
proof (induction keys)
  case Nil
  then show ?case by simp
next
  case (Cons envKey rest)
  show ?case
  proof (cases "env envKey")
    case None
    with Cons show ?thesis by simp
  next
    case (Some v)
    with Cons show ?thesis by (cases "v = []") auto
  qed
qed

lemma env_loop_not_found:
  "first_non_empty (map env keys) = None \<Longrightarrow> env_loop env keys cur = cur"
proof (induction keys)
  case Nil
  then show ?case by simp
next
  case (Cons envKey rest)
  show ?case
  proof (cases "env envKey")
    case None
    with Cons show ?thesis by simp
  next
    case (Some v)
    with Cons show ?thesis by (cases "v = []") auto
  qed
qed

lemma first_non_empty_None:
  "first_non_empty vs = None \<longleftrightarrow> (\<forall>v \<in> set vs. \<not> truthy v)"
  by (induction vs rule: first_non_empty.induct) simp_all

lemma resolve_api_key_fallback:
  assumes "\<not> truthy configured"
  shows "resolve_api_key configured env =
           (case first_non_empty (map env possibleEnvKeys) of
              None \<Rightarrow> Inl ConfigError
            | Some k \<Rightarrow> Inr k)"
proof (cases "first_non_empty (map env possibleEnvKeys)")
  case None
  from env_loop_not_found [OF this, of configured] assms None
  show ?thesis
    by (cases configured) (simp_all add: resolve_api_key_def)
next
  case (Some k)
  from env_loop_found [OF this, of configured] assms Some
  show ?thesis
    by (simp add: resolve_api_key_def)
qed

lemma resolve_api_key_explicit:
  "k \<noteq> [] \<Longrightarrow> resolve_api_key (Some k) env = Inr k"
  by (simp add: resolve_api_key_def)

text \<open>
  Claim C5. The credential is the \<^verbatim>\<open>apiKey\<close> setting when it is non-empty; otherwise it is the
  first non-empty value among the environment variables OPENAI_API_KEY, FIREWORKS_AI_API_KEY,
  DEEPSEEK_API_KEY, ANTHROPIC_API_KEY, GEMINI_API_KEY, GROQ_API_KEY, QODO_API_KEY, looked up in
  that order (so OPENAI_API_KEY=a beats DEEPSEEK_API_KEY=b); and the handler aborts with the
  configuration error exactly when the setting and all seven variables are absent or empty.
\<close>

theorem api_key_resolution_order:
  "(\<forall>k. configured = Some k \<and> k \<noteq> [] \<longrightarrow> resolve_api_key configured env = Inr k)
   \<and> (\<not> truthy configured \<longrightarrow>
        resolve_api_key configured env =
          (case first_non_empty
                  [env ''OPENAI_API_KEY'', env ''FIREWORKS_AI_API_KEY'', env ''DEEPSEEK_API_KEY'',
                   env ''ANTHROPIC_API_KEY'', env ''GEMINI_API_KEY'', env ''GROQ_API_KEY'',
                   env ''QODO_API_KEY''] of
             None \<Rightarrow> Inl ConfigError
           | Some k \<Rightarrow> Inr k))
   \<and> (\<not> truthy configured \<and> a \<noteq> [] \<and> b \<noteq> [] \<and> env ''OPENAI_API_KEY'' = Some a
        \<and> env ''DEEPSEEK_API_KEY'' = Some b \<longrightarrow> resolve_api_key configured env = Inr a)
   \<and> (resolve_api_key configured env = Inl ConfigError \<longleftrightarrow>
        \<not> truthy configured
        \<and> (\<forall>envKey \<in> {''OPENAI_API_KEY'', ''FIREWORKS_AI_API_KEY'', ''DEEPSEEK_API_KEY'',
                        ''ANTHROPIC_API_KEY'', ''GEMINI_API_KEY'', ''GROQ_API_KEY'',
                        ''QODO_API_KEY''}. \<not> truthy (env envKey)))"
proof (intro conjI allI impI)
  fix k
  assume "configured = Some k \<and> k \<noteq> []"
  then show "resolve_api_key configured env = Inr k"
    by (simp add: resolve_api_key_explicit)
next
  assume "\<not> truthy configured"
  from resolve_api_key_fallback [OF this, of env]
  show "resolve_api_key configured env =
          (case first_non_empty
                  [env ''OPENAI_API_KEY'', env ''FIREWORKS_AI_API_KEY'', env ''DEEPSEEK_API_KEY'',
                   env ''ANTHROPIC_API_KEY'', env ''GEMINI_API_KEY'', env ''GROQ_API_KEY'',
                   env ''QODO_API_KEY''] of
             None \<Rightarrow> Inl ConfigError
           | Some k \<Rightarrow> Inr k)"
    by (simp add: possibleEnvKeys_def)
next
  assume h: "\<not> truthy configured \<and> a \<noteq> [] \<and> b \<noteq> [] \<and> env ''OPENAI_API_KEY'' = Some a
               \<and> env ''DEEPSEEK_API_KEY'' = Some b"
  then have "\<not> truthy configured" by simp
  from resolve_api_key_fallback [OF this, of env] h
  show "resolve_api_key configured env = Inr a"
    by (simp add: possibleEnvKeys_def)
next
  show "resolve_api_key configured env = Inl ConfigError \<longleftrightarrow>
        \<not> truthy configured
        \<and> (\<forall>envKey \<in> {''OPENAI_API_KEY'', ''FIREWORKS_AI_API_KEY'', ''DEEPSEEK_API_KEY'',
                        ''ANTHROPIC_API_KEY'', ''GEMINI_API_KEY'', ''GROQ_API_KEY'',
                        ''QODO_API_KEY''}. \<not> truthy (env envKey))"
  proof (cases "truthy configured")
    case True
    then obtain k where "configured = Some k" "k \<noteq> []"
      by (cases configured) auto
    with True show ?thesis by (simp add: resolve_api_key_explicit)
  next
    case False
    have s: "set possibleEnvKeys =
               {''OPENAI_API_KEY'', ''FIREWORKS_AI_API_KEY'', ''DEEPSEEK_API_KEY'',
                ''ANTHROPIC_API_KEY'', ''GEMINI_API_KEY'', ''GROQ_API_KEY'', ''QODO_API_KEY''}"
      by (simp add: possibleEnvKeys_def)
    have "resolve_api_key configured env = Inl ConfigError \<longleftrightarrow>
            first_non_empty (map env possibleEnvKeys) = None"
      using resolve_api_key_fallback [OF False, of env] by (auto split: option.splits)
    also have "\<dots> \<longleftrightarrow> (\<forall>envKey \<in> set possibleEnvKeys. \<not> truthy (env envKey))"
      by (simp add: first_non_empty_None)
    finally show ?thesis using False unfolding s by simp
  qed
qed

theorem api_key_resolution_order_witness:
  "resolve_api_key (Some ''sk-1'') Map.empty = Inr ''sk-1''
   \<and> resolve_api_key None [''OPENAI_API_KEY'' \<mapsto> ''a'', ''DEEPSEEK_API_KEY'' \<mapsto> ''b''] = Inr ''a''
   \<and> resolve_api_key None Map.empty = Inl ConfigError"
  using api_key_resolution_order [of "Some ''sk-1''" Map.empty]
        api_key_resolution_order [of None "[''OPENAI_API_KEY'' \<mapsto> ''a'', ''DEEPSEEK_API_KEY'' \<mapsto> ''b'']" "''a''" "''b''"]
        api_key_resolution_order [of None Map.empty]
  by simp

lemma first_non_empty_skip_empty:
  "env envKey = Some [] \<Longrightarrow>
   first_non_empty (map (env(envKey := None)) keys) = first_non_empty (map env keys)"
proof (induction keys)
  case Nil
  show ?case by simp
next
  case (Cons k keys)
  show ?case
  proof (cases "k = envKey")
    case True
    with Cons show ?thesis by simp
  next
    case False
    with Cons show ?thesis by (cases "env k") simp_all
  qed
qed

lemma env_loop_first_truthy:
  "(\<forall>k \<in> set skipped. \<not> truthy (env k)) \<Longrightarrow> v \<noteq> [] \<Longrightarrow> env envKey = Some v \<Longrightarrow>
   env_loop env (skipped @ envKey # rest) cur = Some v"
  by (induction skipped) simp_all

lemma resolve_api_key_never_empty: "resolve_api_key configured env \<noteq> Inr []"
proof (cases "truthy configured")
  case True
  then show ?thesis by (cases configured) (simp_all add: resolve_api_key_def)
next
  case False
  then show ?thesis
    by (simp add: resolve_api_key_def Let_def split: option.splits)
qed

lemma all_untruthy:
  "\<forall>k \<in> set keys. env k = None \<or> env k = Some [] \<Longrightarrow> \<forall>v \<in> set (map env keys). \<not> truthy v"
  by auto

text \<open>
  Claim C10. An \<^verbatim>\<open>apiKey\<close> setting that is the empty string gives the same result as an absent
  setting: the lookup goes on to the environment variables and returns the first non-empty
  value of the chain. A variable set to the empty string is skipped like an unset one: after
  any run of unset or empty variables the first non-empty one is selected, the handler aborts
  when all seven are unset or empty, unsetting an empty variable changes nothing, and the empty
  string is never the credential.
\<close>

theorem empty_values_are_absent:
  "resolve_api_key (Some []) env = resolve_api_key None env
   \<and> resolve_api_key (Some []) env =
        (case first_non_empty
                [env ''OPENAI_API_KEY'', env ''FIREWORKS_AI_API_KEY'', env ''DEEPSEEK_API_KEY'',
                 env ''ANTHROPIC_API_KEY'', env ''GEMINI_API_KEY'', env ''GROQ_API_KEY'',
                 env ''QODO_API_KEY''] of
           None \<Rightarrow> Inl ConfigError
         | Some k \<Rightarrow> Inr k)
   \<and> ([''OPENAI_API_KEY'', ''FIREWORKS_AI_API_KEY'', ''DEEPSEEK_API_KEY'', ''ANTHROPIC_API_KEY'',
        ''GEMINI_API_KEY'', ''GROQ_API_KEY'', ''QODO_API_KEY''] = skipped @ envKey # rest
        \<and> (\<forall>k \<in> set skipped. env k = None \<or> env k = Some [])
        \<and> env envKey = Some v \<and> v \<noteq> []
        \<longrightarrow> resolve_api_key (Some []) env = Inr v \<and> resolve_api_key None env = Inr v)
   \<and> ((\<forall>k \<in> {''OPENAI_API_KEY'', ''FIREWORKS_AI_API_KEY'', ''DEEPSEEK_API_KEY'',
                 ''ANTHROPIC_API_KEY'', ''GEMINI_API_KEY'', ''GROQ_API_KEY'', ''QODO_API_KEY''}.
          env k = None \<or> env k = Some [])
        \<longrightarrow> resolve_api_key (Some []) env = Inl ConfigError)
   \<and> (env name = Some [] \<longrightarrow>
        resolve_api_key configured (env(name := None)) = resolve_api_key configured env)
   \<and> resolve_api_key configured env \<noteq> Inr []"
proof (intro conjI impI)
  show "resolve_api_key (Some []) env = resolve_api_key None env"
    by (simp add: resolve_api_key_fallback)
next
  show "resolve_api_key (Some []) env =
        (case first_non_empty
                [env ''OPENAI_API_KEY'', env ''FIREWORKS_AI_API_KEY'', env ''DEEPSEEK_API_KEY'',
                 env ''ANTHROPIC_API_KEY'', env ''GEMINI_API_KEY'', env ''GROQ_API_KEY'',
                 env ''QODO_API_KEY''] of
           None \<Rightarrow> Inl ConfigError
         | Some k \<Rightarrow> Inr k)"
    by (simp add: resolve_api_key_fallback possibleEnvKeys_def)
next
  assume h: "[''OPENAI_API_KEY'', ''FIREWORKS_AI_API_KEY'', ''DEEPSEEK_API_KEY'', ''ANTHROPIC_API_KEY'',
        ''GEMINI_API_KEY'', ''GROQ_API_KEY'', ''QODO_API_KEY''] = skipped @ envKey # rest
        \<and> (\<forall>k \<in> set skipped. env k = None \<or> env k = Some [])
        \<and> env envKey = Some v \<and> v \<noteq> []"
  have keys: "possibleEnvKeys = skipped @ envKey # rest"
    using h [THEN conjunct1] unfolding possibleEnvKeys_def .
  have sk: "\<forall>k \<in> set skipped. \<not> truthy (env k)"
    using h [THEN conjunct2, THEN conjunct1] by auto
  have ev: "v \<noteq> []" "env envKey = Some v"
    using h [THEN conjunct2, THEN conjunct2] by simp_all
  have "\<And>cur. env_loop env possibleEnvKeys cur = Some v"
    unfolding keys by (rule env_loop_first_truthy [OF sk ev])
  with ev show "resolve_api_key (Some []) env = Inr v"
    by (simp add: resolve_api_key_def)
  then show "resolve_api_key None env = Inr v"
    by (simp add: resolve_api_key_fallback)
next
  assume h: "\<forall>k \<in> {''OPENAI_API_KEY'', ''FIREWORKS_AI_API_KEY'', ''DEEPSEEK_API_KEY'',
                 ''ANTHROPIC_API_KEY'', ''GEMINI_API_KEY'', ''GROQ_API_KEY'', ''QODO_API_KEY''}.
          env k = None \<or> env k = Some []"
  have s: "set possibleEnvKeys =
             {''OPENAI_API_KEY'', ''FIREWORKS_AI_API_KEY'', ''DEEPSEEK_API_KEY'',
              ''ANTHROPIC_API_KEY'', ''GEMINI_API_KEY'', ''GROQ_API_KEY'', ''QODO_API_KEY''}"
    by (simp add: possibleEnvKeys_def)
  from h have "\<forall>k \<in> set possibleEnvKeys. env k = None \<or> env k = Some []"
    unfolding s .
  then have "\<forall>v \<in> set (map env possibleEnvKeys). \<not> truthy v"
    by (rule all_untruthy)
  then have "first_non_empty (map env possibleEnvKeys) = None"
    by (simp only: first_non_empty_None)
  then show "resolve_api_key (Some []) env = Inl ConfigError"
    by (simp add: resolve_api_key_fallback)
next
  assume e: "env name = Some []"
  show "resolve_api_key configured (env(name := None)) = resolve_api_key configured env"
  proof (cases "truthy configured")
    case True
    then show ?thesis by (simp add: resolve_api_key_def)
  next
    case False
    then show ?thesis
      using first_non_empty_skip_empty [of env name possibleEnvKeys, OF e]
      by (simp add: resolve_api_key_fallback)
  qed
next
  show "resolve_api_key configured env \<noteq> Inr []"
    by (rule resolve_api_key_never_empty)
qed

theorem empty_values_are_absent_witness:
  "resolve_api_key (Some []) [''OPENAI_API_KEY'' \<mapsto> [], ''DEEPSEEK_API_KEY'' \<mapsto> [], ''GROQ_API_KEY'' \<mapsto> ''g'']
     = Inr ''g''
   \<and> resolve_api_key None [''OPENAI_API_KEY'' \<mapsto> [], ''DEEPSEEK_API_KEY'' \<mapsto> [], ''GROQ_API_KEY'' \<mapsto> ''g'']
     = Inr ''g''
   \<and> resolve_api_key (Some []) [''OPENAI_API_KEY'' \<mapsto> [], ''QODO_API_KEY'' \<mapsto> []] = Inl ConfigError
   \<and> resolve_api_key None ([''OPENAI_API_KEY'' \<mapsto> [], ''GROQ_API_KEY'' \<mapsto> ''g''](''OPENAI_API_KEY'' := None))
     = resolve_api_key None [''OPENAI_API_KEY'' \<mapsto> [], ''GROQ_API_KEY'' \<mapsto> ''g'']"
proof -
  let ?env = "[''OPENAI_API_KEY'' \<mapsto> [], ''DEEPSEEK_API_KEY'' \<mapsto> [], ''GROQ_API_KEY'' \<mapsto> ''g'']"
  let ?skipped = "[''OPENAI_API_KEY'', ''FIREWORKS_AI_API_KEY'', ''DEEPSEEK_API_KEY'',
                   ''ANTHROPIC_API_KEY'', ''GEMINI_API_KEY'']"
  have a: "[''OPENAI_API_KEY'', ''FIREWORKS_AI_API_KEY'', ''DEEPSEEK_API_KEY'', ''ANTHROPIC_API_KEY'',
        ''GEMINI_API_KEY'', ''GROQ_API_KEY'', ''QODO_API_KEY''] = ?skipped @ ''GROQ_API_KEY'' # [''QODO_API_KEY'']"
    by simp
  have b: "\<forall>k \<in> set ?skipped. ?env k = None \<or> ?env k = Some []" by simp
  have c: "?env ''GROQ_API_KEY'' = Some ''g''" "''g'' \<noteq> []" by simp_all
  let ?env2 = "[''OPENAI_API_KEY'' \<mapsto> [], ''QODO_API_KEY'' \<mapsto> []]"
  have d: "\<forall>k \<in> {''OPENAI_API_KEY'', ''FIREWORKS_AI_API_KEY'', ''DEEPSEEK_API_KEY'',
                 ''ANTHROPIC_API_KEY'', ''GEMINI_API_KEY'', ''GROQ_API_KEY'', ''QODO_API_KEY''}.
          ?env2 k = None \<or> ?env2 k = Some []" by simp
  let ?env3 = "[''OPENAI_API_KEY'' \<mapsto> [], ''GROQ_API_KEY'' \<mapsto> ''g'']"
  have e: "?env3 ''OPENAI_API_KEY'' = Some []" by simp
  have 1: "resolve_api_key (Some []) ?env = Inr ''g'' \<and> resolve_api_key None ?env = Inr ''g''"
    by (rule mp [OF empty_values_are_absent
                  [where env = ?env and skipped = ?skipped and envKey = "''GROQ_API_KEY''"
                     and rest = "[''QODO_API_KEY'']" and v = "''g''",
                   THEN conjunct2, THEN conjunct2, THEN conjunct1]])
       (intro conjI a b c)
  have 2: "resolve_api_key (Some []) ?env2 = Inl ConfigError"
    by (rule mp [OF empty_values_are_absent
                  [where env = ?env2, THEN conjunct2, THEN conjunct2, THEN conjunct2,
                   THEN conjunct1]])
       (rule d)
  have 3: "resolve_api_key None (?env3(''OPENAI_API_KEY'' := None)) = resolve_api_key None ?env3"
    by (rule mp [OF empty_values_are_absent
                  [where env = ?env3 and name = "''OPENAI_API_KEY''" and configured = None,
                   THEN conjunct2, THEN conjunct2, THEN conjunct2, THEN conjunct2,
                   THEN conjunct1]])
       (rule e)
  from 1 2 3 show ?thesis by (intro conjI) simp_all
qed

subsection \<open>Path context and placeholder substitution\<close>

lemma calc_context:
  "derive_context cwd ''/ws'' ''/ws/app/calc.py'' =
     \<lparr> sourceRelPath = ''app/calc.py'', fileName = ''calc.py'', sourceDir = ''app'' \<rparr>"
  by (simp add: derive_context_def toPosixPath_def path_sep_def path_relative_def isAbsolute_def
        path_basename_def path_dirname_def)

text \<open>
  Claim C6. With workspace root \<^verbatim>\<open>/ws\<close>, active file \<^verbatim>\<open>/ws/app/calc.py\<close> and no setting
  configured, the source path is \<^verbatim>\<open>app/calc.py\<close>, the test path is \<^verbatim>\<open>tests/test_calc.py\<close> and the
  test command is
  \<^verbatim>\<open>pytest tests/test_calc.py --cov=app --cov-branch --cov-report=xml --cov-report=html\<close>.
\<close>

theorem default_templates_scenario:
  "resolve_invocation default_settings (derive_context cwd ''/ws'' ''/ws/app/calc.py'') =
     \<lparr> finalSourcePath = ''app/calc.py'',
       finalTestPath = ''tests/test_calc.py'',
       finalTestCommand =
         ''pytest tests/test_calc.py --cov=app --cov-branch --cov-report=xml --cov-report=html'' \<rparr>"
  unfolding calc_context
  by (simp add: resolve_invocation_def default_settings_def resolve_path_template_def
        resolve_test_command_def replace_global_def)


lemma getSubstitution_plain:
  "CHR ''$'' \<notin> set v \<Longrightarrow> getSubstitution matched preceding following v = v"
  by (induction matched preceding following v rule: getSubstitution.induct) auto

lemma replace_from_literal:
  "CHR ''{'' \<notin> set l \<Longrightarrow>
   replace_from (CHR ''{'' # p) v pre (l @ rest) = l @ replace_from (CHR ''{'' # p) v (pre @ l) rest"
  by (induction l arbitrary: pre) auto

lemma replace_from_match:
  "replace_from (c # p) v pre ((c # p) @ rest) =
     getSubstitution (c # p) pre rest v @ replace_from (c # p) v (pre @ c # p) rest"
  by simp

lemma token_text_shape:
  "\<exists>body. token_text t = CHR ''{'' # body \<and> CHR ''{'' \<notin> set body"
  by (cases t) simp_all

lemma token_text_no_prefix:
  "t \<noteq> t' \<Longrightarrow> \<not> prefix (token_text t) (token_text t' @ rest)"
  by (cases t; cases t') simp_all

lemma replace_from_other_token:
  assumes "t \<noteq> t'"
  shows "replace_from (token_text t) v pre (token_text t' @ rest) =
           token_text t' @ replace_from (token_text t) v (pre @ token_text t') rest"
proof -
  obtain body where b: "token_text t' = CHR ''{'' # body" "CHR ''{'' \<notin> set body"
    using token_text_shape by blast
  obtain p where p: "token_text t = CHR ''{'' # p"
    using token_text_shape by blast
  have n: "\<not> prefix (token_text t) (CHR ''{'' # body @ rest)"
    using token_text_no_prefix [OF assms, of rest] b by simp
  have "replace_from (token_text t) v pre (CHR ''{'' # body @ rest) =
          CHR ''{'' # replace_from (token_text t) v (pre @ [CHR ''{'']) (body @ rest)"
    using n by simp
  also have "\<dots> = CHR ''{'' # body @ replace_from (token_text t) v ((pre @ [CHR ''{'']) @ body) rest"
    unfolding p using replace_from_literal [OF b(2)] by simp
  finally show ?thesis using b by simp
qed

lemma replace_from_render:
  assumes "plain_literals segs" and "CHR ''$'' \<notin> set v"
  shows "replace_from (token_text t) v pre (render segs) = render (map (instantiate t v) segs)"
  using assms(1)
proof (induction segs arbitrary: pre)
  case Nil
  show ?case by (simp add: render_def)
next
  case (Cons seg segs)
  obtain p where p: "token_text t = CHR ''{'' # p"
    using token_text_shape by blast
  show ?case
  proof (cases seg)
    case (Lit l)
    with Cons.prems have l: "CHR ''{'' \<notin> set l" and r: "plain_literals segs"
      by (simp_all add: brace_free_def)
    have "replace_from (token_text t) v pre (l @ render segs) =
            l @ replace_from (token_text t) v (pre @ l) (render segs)"
      unfolding p using replace_from_literal [OF l] by simp
    with Cons.IH [OF r] Lit show ?thesis by (simp add: render_def)
  next
    case (Tok t')
    with Cons.prems have r: "plain_literals segs" by simp
    show ?thesis
    proof (cases "t' = t")
      case True
      have "replace_from (token_text t) v pre (token_text t @ render segs) =
              v @ replace_from (token_text t) v (pre @ token_text t) (render segs)"
        unfolding p using replace_from_match [of "CHR ''{''" p v pre "render segs"]
          getSubstitution_plain [OF assms(2)] by simp
      with Cons.IH [OF r] Tok True show ?thesis by (simp add: render_def)
    next
      case False
      then have "t \<noteq> t'" by simp
      from replace_from_other_token [OF this, of v pre "render segs"] Cons.IH [OF r] Tok False
      show ?thesis by (simp add: render_def)
    qed
  qed
qed

lemma replace_global_render:
  "plain_literals segs \<Longrightarrow> CHR ''$'' \<notin> set v \<Longrightarrow>
   replace_global (token_text t) v (render segs) = render (map (instantiate t v) segs)"
  by (simp add: replace_global_def replace_from_render)

lemma plain_literals_instantiate:
  "plain_literals segs \<Longrightarrow> CHR ''{'' \<notin> set v \<Longrightarrow> plain_literals (map (instantiate t v) segs)"
  by (induction segs rule: plain_literals.induct) (simp_all add: brace_free_def)

lemma resolve_path_template_render:
  assumes "plain_literals segs"
    and "plain_value (sourceRelPath ctx)" and "plain_value (fileName ctx)"
    and "plain_value (sourceDir ctx)"
  shows "resolve_path_template (render segs) ctx =
           render (map (instantiate SourceDir (sourceDir ctx))
                    (map (instantiate FileName (fileName ctx))
                      (map (instantiate RelativeFilePath (sourceRelPath ctx)) segs)))"
proof -
  let ?s1 = "map (instantiate RelativeFilePath (sourceRelPath ctx)) segs"
  let ?s2 = "map (instantiate FileName (fileName ctx)) ?s1"
  have b: "CHR ''{'' \<notin> set (sourceRelPath ctx)" "CHR ''{'' \<notin> set (fileName ctx)"
    using assms(2,3) by (simp_all add: plain_value_def)
  have p1: "plain_literals ?s1"
    by (rule plain_literals_instantiate [OF assms(1) b(1)])
  have p2: "plain_literals ?s2"
    by (rule plain_literals_instantiate [OF p1 b(2)])
  have "replace_global ''{relativeFilePath}'' (sourceRelPath ctx) (render segs) = render ?s1"
    using replace_global_render [OF assms(1), of "sourceRelPath ctx" RelativeFilePath] assms(2)
    by (simp add: plain_value_def)
  moreover have "replace_global ''{fileName}'' (fileName ctx) (render ?s1) = render ?s2"
    using replace_global_render [OF p1, of "fileName ctx" FileName] assms(3)
    by (simp add: plain_value_def)
  moreover have "replace_global ''{sourceDir}'' (sourceDir ctx) (render ?s2) =
                   render (map (instantiate SourceDir (sourceDir ctx)) ?s2)"
    using replace_global_render [OF p2, of "sourceDir ctx" SourceDir] assms(4)
    by (simp add: plain_value_def)
  ultimately show ?thesis by (simp add: resolve_path_template_def)
qed






text \<open>
  Claim C8, as stated, fails. In the workspace \<^verbatim>\<open>/ws\<close> with the active file \<^verbatim>\<open>/ws/FilePath\<close>
  no value contains a token, so the precondition holds for the template
  \<^verbatim>\<open>{relative{fileName}}\<close>; it resolves to \<^verbatim>\<open>{relativeFilePath}\<close>, and resolving that gives
  \<^verbatim>\<open>FilePath\<close>.
\<close>

theorem resolution_not_idempotent:
  "non_adversarial ''{relative{fileName}}'' (derive_context ''/'' ''/ws'' ''/ws/FilePath'')
   \<and> resolve_path_template ''{relative{fileName}}'' (derive_context ''/'' ''/ws'' ''/ws/FilePath'')
       = ''{relativeFilePath}''
   \<and> resolve_path_template
        (resolve_path_template ''{relative{fileName}}''
           (derive_context ''/'' ''/ws'' ''/ws/FilePath''))
        (derive_context ''/'' ''/ws'' ''/ws/FilePath'')
       = ''FilePath''"
  by code_simp

lemma path_instances_twice:
  "map (instantiate SourceDir c) (map (instantiate FileName b) (map (instantiate RelativeFilePath a)
     (map (instantiate SourceDir c) (map (instantiate FileName b)
        (map (instantiate RelativeFilePath a) segs)))))
   = map (instantiate SourceDir c) (map (instantiate FileName b)
        (map (instantiate RelativeFilePath a) segs))"
proof (induction segs)
  case Nil
  show ?case by simp
next
  case (Cons seg segs)
  show ?case
  proof (cases seg)
    case (Lit l)
    with Cons show ?thesis by simp
  next
    case (Tok t)
    with Cons show ?thesis by (cases t) simp_all
  qed
qed

text \<open>
  Claim C8, amended. Resolution of a path template is idempotent when every \<^verbatim>\<open>{\<close> of the
  template starts a recognised token and no value contains \<^verbatim>\<open>{\<close> or \<^verbatim>\<open>$\<close>.
\<close>

theorem resolution_idempotent_on_plain_templates:
  assumes "plain_literals segs"
    and "plain_value (sourceRelPath ctx)" and "plain_value (fileName ctx)"
    and "plain_value (sourceDir ctx)"
  shows "resolve_path_template (resolve_path_template (render segs) ctx) ctx
           = resolve_path_template (render segs) ctx"
proof -
  let ?once = "map (instantiate SourceDir (sourceDir ctx))
                 (map (instantiate FileName (fileName ctx))
                   (map (instantiate RelativeFilePath (sourceRelPath ctx)) segs))"
  have r: "resolve_path_template (render segs) ctx = render ?once"
    by (rule resolve_path_template_render [OF assms])
  have b: "CHR ''{'' \<notin> set (sourceRelPath ctx)" "CHR ''{'' \<notin> set (fileName ctx)"
      "CHR ''{'' \<notin> set (sourceDir ctx)"
    using assms(2-4) by (simp_all add: plain_value_def)
  have p: "plain_literals ?once"
    by (intro plain_literals_instantiate assms(1) b)
  have "resolve_path_template (render ?once) ctx = render ?once"
    using resolve_path_template_render [OF p assms(2-4)]
    by (simp only: path_instances_twice)
  with r show ?thesis by simp
qed

theorem resolution_idempotent_on_plain_templates_witness:
  "plain_literals [Lit ''tests/test_'', Tok FileName]
   \<and> plain_value ''app/calc.py'' \<and> plain_value ''calc.py'' \<and> plain_value ''app''
   \<and> resolve_path_template
        (resolve_path_template ''tests/test_{fileName}''
           \<lparr> sourceRelPath = ''app/calc.py'', fileName = ''calc.py'', sourceDir = ''app'' \<rparr>)
        \<lparr> sourceRelPath = ''app/calc.py'', fileName = ''calc.py'', sourceDir = ''app'' \<rparr>
       = resolve_path_template ''tests/test_{fileName}''
           \<lparr> sourceRelPath = ''app/calc.py'', fileName = ''calc.py'', sourceDir = ''app'' \<rparr>"
proof -
  let ?segs = "[Lit ''tests/test_'', Tok FileName]"
  let ?ctx = "\<lparr> sourceRelPath = ''app/calc.py'', fileName = ''calc.py'', sourceDir = ''app'' \<rparr>"
  have l: "plain_literals ?segs" by (simp add: brace_free_def)
  have v: "plain_value (sourceRelPath ?ctx)" "plain_value (fileName ?ctx)"
      "plain_value (sourceDir ?ctx)"
    by (simp_all add: plain_value_def)
  have r: "render ?segs = ''tests/test_{fileName}''"
    by (simp add: render_def)
  from resolution_idempotent_on_plain_templates [OF l v] l v
  show ?thesis unfolding r by simp
qed

subsection \<open>Test directory\<close>

text \<open>
  Claim C4, as stated, fails. With the setting \<^verbatim>\<open>testFilePath = ../outside/test_{fileName}\<close>
  in the workspace \<^verbatim>\<open>/ws\<close>, the test path is \<^verbatim>\<open>../outside/test_calc.py\<close>, the directory that
  is checked and created is \<^verbatim>\<open>/outside\<close>, and the child, started in \<^verbatim>\<open>/ws\<close>, is given a path that
  names \<^verbatim>\<open>/outside/test_calc.py\<close>. With the absolute setting \<^verbatim>\<open>/etc/test_{fileName}\<close> the
  directory is \<^verbatim>\<open>/ws/etc\<close> and the test path names \<^verbatim>\<open>/etc/test_calc.py\<close>.
\<close>

theorem test_path_escapes_workspace:
  "finalTestPath (resolve_invocation
       (default_settings\<lparr> testFilePath := Some ''../outside/test_{fileName}'' \<rparr>)
       (derive_context ''/'' ''/ws'' ''/ws/app/calc.py'')) = ''../outside/test_calc.py''
   \<and> testDirAbs ''/ws'' ''../outside/test_calc.py'' = ''/outside''
   \<and> \<not> is_inside ''/ws'' ''/outside''
   \<and> ensure_test_dir (\<lambda>dir. None) {''/ws''} ''/ws'' ''../outside/test_calc.py''
       = Inr {''/outside'', ''/ws''}
   \<and> test_file_location ''/ws'' ''../outside/test_calc.py'' = ''/outside/test_calc.py''
   \<and> \<not> is_inside ''/ws'' ''/outside/test_calc.py''
   \<and> finalTestPath (resolve_invocation
       (default_settings\<lparr> testFilePath := Some ''/etc/test_{fileName}'' \<rparr>)
       (derive_context ''/'' ''/ws'' ''/ws/app/calc.py'')) = ''/etc/test_calc.py''
   \<and> testDirAbs ''/ws'' ''/etc/test_calc.py'' = ''/ws/etc''
   \<and> test_file_location ''/ws'' ''/etc/test_calc.py'' = ''/etc/test_calc.py''
   \<and> \<not> is_inside ''/ws'' ''/etc/test_calc.py''"
proof -
  have t: "testDirAbs ''/ws'' ''../outside/test_calc.py'' = ''/outside''"
    by code_simp
  have e: "ensure_test_dir (\<lambda>dir. None) {''/ws''} ''/ws'' ''../outside/test_calc.py''
             = Inr {''/outside'', ''/ws''}"
    by (simp add: ensure_test_dir_def t)
  have rest: "finalTestPath (resolve_invocation
       (default_settings\<lparr> testFilePath := Some ''../outside/test_{fileName}'' \<rparr>)
       (derive_context ''/'' ''/ws'' ''/ws/app/calc.py'')) = ''../outside/test_calc.py''
   \<and> \<not> is_inside ''/ws'' ''/outside''
   \<and> test_file_location ''/ws'' ''../outside/test_calc.py'' = ''/outside/test_calc.py''
   \<and> \<not> is_inside ''/ws'' ''/outside/test_calc.py''
   \<and> finalTestPath (resolve_invocation
       (default_settings\<lparr> testFilePath := Some ''/etc/test_{fileName}'' \<rparr>)
       (derive_context ''/'' ''/ws'' ''/ws/app/calc.py'')) = ''/etc/test_calc.py''
   \<and> testDirAbs ''/ws'' ''/etc/test_calc.py'' = ''/ws/etc''
   \<and> test_file_location ''/ws'' ''/etc/test_calc.py'' = ''/etc/test_calc.py''
   \<and> \<not> is_inside ''/ws'' ''/etc/test_calc.py''"
    by code_simp
  from t e rest show ?thesis by blast
qed

lemma split_on_not_Nil: "split_on c s \<noteq> []"
  by (induction s) (auto split: list.splits)

lemma split_on_Cons_other:
  "x \<noteq> c \<Longrightarrow> split_on c (x # s) = (x # hd (split_on c s)) # tl (split_on c s)"
  using split_on_not_Nil [of c s] by (cases "split_on c s") simp_all

lemma split_on_append:
  "split_on c (a @ c # b) = split_on c a @ split_on c b"
proof (induction a)
  case Nil
  show ?case by simp
next
  case (Cons x a)
  show ?case
  proof (cases "x = c")
    case True
    with Cons show ?thesis by simp
  next
    case False
    have n: "split_on c a \<noteq> []" by (rule split_on_not_Nil)
    from False have "split_on c ((x # a) @ c # b) =
        (x # hd (split_on c (a @ c # b))) # tl (split_on c (a @ c # b))"
      using split_on_Cons_other [of x c "a @ c # b"] by simp
    also have "\<dots> = (x # hd (split_on c a)) # tl (split_on c a) @ split_on c b"
      using n by (simp add: Cons.IH)
    also have "\<dots> = split_on c (x # a) @ split_on c b"
      using split_on_Cons_other [OF False, of a] by simp
    finally show ?thesis .
  qed
qed

lemma split_on_free: "c \<notin> set s \<Longrightarrow> split_on c s = [s]"
  by (induction s) auto

lemma split_on_join:
  "segs \<noteq> [] \<Longrightarrow> \<forall>seg \<in> set segs. c \<notin> set seg \<Longrightarrow> split_on c (join_with [c] segs) = segs"
proof (induction "[c]" segs rule: join_with.induct)
  case 1
  then show ?case by simp
next
  case (2 seg)
  then show ?case by (simp add: split_on_free)
next
  case (3 seg v va)
  then show ?case by (simp add: split_on_append split_on_free)
qed

lemma normalizeString_no_parent:
  "''..'' \<notin> set segs \<Longrightarrow>
   normalizeString a res segs = rev res @ filter (\<lambda>s. s \<noteq> [] \<and> s \<noteq> ''.'') segs"
  by (induction segs arbitrary: res) auto

lemma join_with_append:
  "xs \<noteq> [] \<Longrightarrow> ys \<noteq> [] \<Longrightarrow> join_with g (xs @ ys) = join_with g xs @ g @ join_with g ys"
proof (induction g xs rule: join_with.induct)
  case (1 g)
  then show ?case by simp
next
  case (2 g seg)
  then show ?case by (cases ys) simp_all
next
  case (3 g seg v va)
  then show ?case by simp
qed

lemma join_with_not_Nil:
  "xs \<noteq> [] \<Longrightarrow> hd xs \<noteq> [] \<Longrightarrow> join_with g xs \<noteq> []"
  by (induction g xs rule: join_with.induct) simp_all

lemma dirname_scan_Some:
  "dirname_scan m xs = Some front \<Longrightarrow> \<exists>skipped. xs = skipped @ CHR ''/'' # front"
proof (induction xs arbitrary: m)
  case Nil
  then show ?case by simp
next
  case (Cons x xs)
  show ?case
  proof (cases "x = CHR ''/''")
    case True
    show ?thesis
    proof (cases m)
      case True
      with Cons.prems \<open>x = CHR ''/''\<close> have "dirname_scan m xs = Some front" by simp
      from Cons.IH [OF this] obtain skipped where "xs = skipped @ CHR ''/'' # front" by blast
      then have "x # xs = (x # skipped) @ CHR ''/'' # front" by simp
      then show ?thesis by blast
    next
      case False
      with Cons.prems \<open>x = CHR ''/''\<close> have "xs = front" by simp
      with \<open>x = CHR ''/''\<close> have "x # xs = [] @ CHR ''/'' # front" by simp
      then show ?thesis by blast
    qed
  next
    case False
    with Cons.prems have "dirname_scan False xs = Some front" by simp
    from Cons.IH [OF this] obtain skipped where "xs = skipped @ CHR ''/'' # front" by blast
    then have "x # xs = (x # skipped) @ CHR ''/'' # front" by simp
    then show ?thesis by blast
  qed
qed

lemma dirname_segments:
  "set (split_on CHR ''/'' (path_dirname p)) \<subseteq> set (split_on CHR ''/'' p) \<union> {''.'', []}"
proof (cases p)
  case Nil
  then show ?thesis by (simp add: path_dirname_def)
next
  case (Cons c0 rest)
  show ?thesis
  proof (cases "dirname_scan True (rev rest)")
    case None
    with Cons show ?thesis by (simp add: path_dirname_def)
  next
    case (Some front)
    from dirname_scan_Some [OF this] obtain skipped where "rev rest = skipped @ CHR ''/'' # front"
      by blast
    then have "rest = rev front @ CHR ''/'' # rev skipped"
      by (metis rev_append rev.simps(2) rev_rev_ident append.assoc append_Cons append_Nil)
    then have p: "p = (c0 # rev front) @ CHR ''/'' # rev skipped"
      using Cons by simp
    have s: "split_on CHR ''/'' p =
               split_on CHR ''/'' (c0 # rev front) @ split_on CHR ''/'' (rev skipped)"
      unfolding p by (rule split_on_append)
    show ?thesis
    proof (cases "c0 = CHR ''/'' \<and> front = []")
      case True
      with Cons Some show ?thesis by (simp add: path_dirname_def)
    next
      case False
      with Cons Some have "path_dirname p = c0 # rev front"
        by (auto simp add: path_dirname_def)
      with s show ?thesis by auto
    qed
  qed
qed

lemma path_dirname_not_Nil: "path_dirname p \<noteq> []"
  by (auto simp: path_dirname_def Let_def split: list.splits option.splits)

lemma under_root_segments:
  assumes "segs \<noteq> []" and "\<forall>seg \<in> set segs. clean_segment seg"
    and "''..'' \<notin> set (split_on CHR ''/'' x)"
  shows "normalizeString False [] (split_on CHR ''/'' ((CHR ''/'' # join_with ''/'' segs) @ CHR ''/'' # x))
           = segs @ filter (\<lambda>s. s \<noteq> [] \<and> s \<noteq> ''.'') (split_on CHR ''/'' x)"
proof -
  have f: "\<forall>seg \<in> set segs. CHR ''/'' \<notin> set seg"
    using assms(2) by (simp add: clean_segment_def)
  have j: "split_on CHR ''/'' (join_with ''/'' segs) = segs"
    using split_on_join [OF assms(1) f] by simp
  have sp: "split_on CHR ''/'' ((CHR ''/'' # join_with ''/'' segs) @ CHR ''/'' # x)
              = ([] # segs) @ split_on CHR ''/'' x"
    using split_on_append [of "CHR ''/''" "CHR ''/'' # join_with ''/'' segs" x] j by simp
  have np: "''..'' \<notin> set (([] # segs) @ split_on CHR ''/'' x)"
    using assms(2,3) by (auto simp: clean_segment_def)
  have k: "filter (\<lambda>s. s \<noteq> [] \<and> s \<noteq> ''.'') segs = segs"
    using assms(2) by (auto simp: clean_segment_def filter_id_conv)
  show ?thesis
    unfolding sp normalizeString_no_parent [OF np] using k by simp
qed

lemma inside_root:
  assumes "segs \<noteq> []" and "t = [] \<or> t = ''/''"
  shows "is_inside (CHR ''/'' # join_with ''/'' segs) (CHR ''/'' # join_with ''/'' (segs @ ds) @ t)"
proof (cases ds)
  case Nil
  with assms(2) show ?thesis by (auto simp: is_inside_def)
next
  case (Cons d ds')
  then have "join_with ''/'' (segs @ ds) = join_with ''/'' segs @ ''/'' @ join_with ''/'' ds"
    using join_with_append [OF assms(1), of ds "''/''"] by simp
  then show ?thesis by (simp add: is_inside_def)
qed

text \<open>
  Claim C4, amended. When the resolved test path is relative and has no \<^verbatim>\<open>..\<close> segment, the
  directory that the handler checks and creates, and the file that the test path names for the
  child process, lie in the workspace root or below it. The code checks nothing: with \<^verbatim>\<open>..\<close>
  segments or an absolute test path either can be outside.
\<close>

theorem test_directory_inside_workspace:
  assumes "segs \<noteq> []" and "\<forall>seg \<in> set segs. clean_segment seg"
    and "\<not> isAbsolute test_path"
    and "''..'' \<notin> set (split_on CHR ''/'' test_path)"
  shows "is_inside (CHR ''/'' # join_with ''/'' segs)
           (testDirAbs (CHR ''/'' # join_with ''/'' segs) test_path)
    \<and> is_inside (CHR ''/'' # join_with ''/'' segs)
           (test_file_location (CHR ''/'' # join_with ''/'' segs) test_path)"
proof
  let ?root = "CHR ''/'' # join_with ''/'' segs"
  let ?keep = "\<lambda>s. s \<noteq> [] \<and> s \<noteq> ''.''"
  have hd_ok: "hd segs \<noteq> []"
    using assms(1,2) by (cases segs) (auto simp: clean_segment_def)
  have body_ok: "\<And>ds. join_with ''/'' (segs @ ds) \<noteq> []"
    using join_with_not_Nil [of "segs @ ds" for ds] assms(1) hd_ok by simp
  let ?d = "path_dirname test_path"
  have d_ok: "''..'' \<notin> set (split_on CHR ''/'' ?d)"
    using dirname_segments [of test_path] assms(4) by auto
  let ?full = "?root @ CHR ''/'' # ?d"
  have joined: "path_join [?root, ?d] = normalize ?full"
    using path_dirname_not_Nil [of test_path] by (simp add: path_join_def)
  have n: "normalizeString False [] (split_on CHR ''/'' ?full)
             = segs @ filter ?keep (split_on CHR ''/'' ?d)"
    by (rule under_root_segments [OF assms(1,2) d_ok])
  have "normalize ?full = CHR ''/'' # join_with ''/'' (segs @ filter ?keep (split_on CHR ''/'' ?d))
          @ (if last ?full = CHR ''/'' then ''/'' else [])"
    using n body_ok by (simp add: normalize_def isAbsolute_def)
  then show "is_inside ?root (testDirAbs ?root test_path)"
    using inside_root [OF assms(1), of "if last ?full = CHR ''/'' then ''/'' else []"
            "filter ?keep (split_on CHR ''/'' ?d)"] joined
    by (simp add: testDirAbs_def)
next
  let ?root = "CHR ''/'' # join_with ''/'' segs"
  let ?keep = "\<lambda>s. s \<noteq> [] \<and> s \<noteq> ''.''"
  have "path_resolve ?root test_path =
          CHR ''/'' # join_with ''/''
            (normalizeString False [] (split_on CHR ''/'' (?root @ CHR ''/'' # test_path)))"
    using assms(3) by (simp add: path_resolve_def)
  also have "\<dots> = CHR ''/'' # join_with ''/'' (segs @ filter ?keep (split_on CHR ''/'' test_path))"
    using under_root_segments [OF assms(1,2,4)] by simp
  finally show "is_inside ?root (test_file_location ?root test_path)"
    using inside_root [OF assms(1), of "[]" "filter ?keep (split_on CHR ''/'' test_path)"]
    by (simp add: test_file_location_def)
qed

theorem test_directory_inside_workspace_witness:
  "list_all clean_segment [''ws'']
   \<and> \<not> isAbsolute ''tests/test_calc.py''
   \<and> ''..'' \<notin> set (split_on CHR ''/'' ''tests/test_calc.py'')
   \<and> testDirAbs ''/ws'' ''tests/test_calc.py'' = ''/ws/tests''
   \<and> is_inside ''/ws'' (testDirAbs ''/ws'' ''tests/test_calc.py'')
   \<and> is_inside ''/ws'' (test_file_location ''/ws'' ''tests/test_calc.py'')"
proof -
  have a: "[''ws''] \<noteq> []" by simp
  have b: "\<forall>seg \<in> set [''ws'']. clean_segment seg" by (simp add: clean_segment_def)
  have c: "\<not> isAbsolute ''tests/test_calc.py''" by (simp add: isAbsolute_def)
  have d: "''..'' \<notin> set (split_on CHR ''/'' ''tests/test_calc.py'')" by simp
  have r: "CHR ''/'' # join_with ''/'' [''ws''] = ''/ws''" by simp
  have t: "testDirAbs ''/ws'' ''tests/test_calc.py'' = ''/ws/tests''" by code_simp
  from test_directory_inside_workspace [OF a b c d] b c d t
  show ?thesis unfolding r by simp
qed

subsection \<open>Process supervision\<close>

text \<open>
  Claim C2 fails on the code. When the executable cannot be started (here: the file is
  missing), Node emits \<^verbatim>\<open>error\<close> and then \<^verbatim>\<open>close\<close> with the negative error number; the
  \<^verbatim>\<open>error\<close> handler reports the launch error and the \<^verbatim>\<open>close\<close> handler, which only looks at
  the cancellation flag, reports the exit code as well: two failures for one run. The \<^verbatim>\<open>error\<close>
  handler looks at no flag at all, so an \<^verbatim>\<open>error\<close> event after a cancellation adds a failure
  to the cancellation.
\<close>

theorem launch_error_reported_twice:
  "notifications (supervise [ProcError ''spawn cover-agent ENOENT'', Close (Some (- 2))]) =
     [ErrorMessage ''Launch error: spawn cover-agent ENOENT'',
      ErrorMessage ''Qodo Plus: Error (Code: -2). Check output for details'']
   \<and> outcomes (supervise [ProcError ''spawn cover-agent ENOENT'', Close (Some (- 2))])
       = [Failure, Failure]
   \<and> resolveCalls (supervise [ProcError ''spawn cover-agent ENOENT'', Close (Some (- 2))]) = 2
   \<and> outcomes (supervise [CancellationRequested, ProcError ''kill EPERM''])
       = [Cancelled, Failure]"
  by (simp add: supervise_def spawned_def onError_def onClose_def outcomes_def
        onCancellationRequested_def childProcess_kill_def cancelled_message_def
        launch_error_message_def exit_code_message_def number_text_def decimal_digits.simps)

text \<open>
  What the guard of the \<^verbatim>\<open>close\<close> handler does achieve: when the signal is delivered, no
  success and no exit code is reported after the cancellation, and the cancellation is the
  only outcome as long as no \<^verbatim>\<open>error\<close> event arrives.
\<close>

lemma stream_data_keeps_state:
  "\<forall>e \<in> set evs. is_stream_data e \<Longrightarrow>
   isCancellationRequested (foldl dispatch st evs) = isCancellationRequested st
   \<and> killCalls (foldl dispatch st evs) = killCalls st
   \<and> killError (foldl dispatch st evs) = killError st
   \<and> notifications (foldl dispatch st evs) = notifications st"
proof (induction evs arbitrary: st)
  case Nil
  show ?case by simp
next
  case (Cons e evs)
  then show ?case by (cases e) (simp_all add: onData_def)
qed

lemma after_cancellation:
  "isCancellationRequested st \<Longrightarrow>
   isCancellationRequested (foldl dispatch st evs)
   \<and> killCalls (foldl dispatch st evs) = killCalls st
   \<and> notifications (foldl dispatch st evs) = notifications st @ launch_errors evs"
proof (induction evs arbitrary: st)
  case Nil
  then show ?case by simp
next
  case (Cons e evs)
  show ?case
  proof (cases e)
    case CancellationRequested
    with Cons show ?thesis by simp
  next
    case (StdoutData chunk)
    with Cons.prems Cons.IH [of "onData chunk st"] show ?thesis by (simp add: onData_def)
  next
    case (StderrData chunk)
    with Cons.prems Cons.IH [of "onData chunk st"] show ?thesis by (simp add: onData_def)
  next
    case (Close code)
    with Cons show ?thesis by (simp add: onClose_def)
  next
    case (ProcError msg)
    with Cons.prems Cons.IH [of "onError msg st"] show ?thesis by (simp add: onError_def)
  qed
qed

lemma launch_errors_outcomes:
  "set (map outcome_of (launch_errors evs)) \<subseteq> {Failure}
   \<and> exit_code_message code \<notin> set (launch_errors evs)"
  by (induction evs rule: launch_errors.induct)
     (simp_all add: launch_error_message_def exit_code_message_def)

lemma launch_errors_none:
  "\<forall>e \<in> set evs. \<not> is_proc_error e \<Longrightarrow> launch_errors evs = []"
  by (induction evs rule: launch_errors.induct) simp_all

lemma cancelled_run:
  assumes "\<forall>e \<in> set earlier. is_stream_data e"
  shows "killCalls (supervise (earlier @ CancellationRequested # later)) = 1
    \<and> notifications (supervise (earlier @ CancellationRequested # later))
        = cancelled_message # launch_errors later"
proof -
  let ?s0 = "foldl dispatch spawned earlier"
  from stream_data_keeps_state [OF assms, of spawned]
  have s0: "\<not> isCancellationRequested ?s0" "killCalls ?s0 = 0" "killError ?s0 = None"
      "notifications ?s0 = []"
    by (simp_all add: spawned_def)
  let ?s1 = "dispatch ?s0 CancellationRequested"
  from s0 have s1: "isCancellationRequested ?s1" "killCalls ?s1 = 1"
      "notifications ?s1 = [cancelled_message]"
    by (simp_all add: onCancellationRequested_def childProcess_kill_def)
  have "supervise (earlier @ CancellationRequested # later) = foldl dispatch ?s1 later"
    by (simp add: supervise_def)
  with after_cancellation [OF s1(1), of later] s1 show ?thesis by simp
qed

lemma delivered_kill_suppresses_exit_reports:
  assumes "\<forall>e \<in> set earlier. is_stream_data e"
  shows "killCalls (supervise (earlier @ CancellationRequested # later)) = 1
    \<and> length (filter (\<lambda>out. out = Cancelled)
               (outcomes (supervise (earlier @ CancellationRequested # later)))) = 1
    \<and> Success \<notin> set (outcomes (supervise (earlier @ CancellationRequested # later)))
    \<and> (\<forall>code. exit_code_message code
                 \<notin> set (notifications (supervise (earlier @ CancellationRequested # later))))
    \<and> ((\<forall>e \<in> set later. \<not> is_proc_error e) \<longrightarrow>
          outcomes (supervise (earlier @ CancellationRequested # later)) = [Cancelled])"
proof -
  let ?st = "supervise (earlier @ CancellationRequested # later)"
  from cancelled_run [OF assms, of later]
  have k: "killCalls ?st = 1"
    and n: "notifications ?st = cancelled_message # launch_errors later"
    by simp_all
  have f: "set (map outcome_of (launch_errors later)) \<subseteq> {Failure}"
    using launch_errors_outcomes by blast
  then have nc: "filter (\<lambda>out. out = Cancelled) (map outcome_of (launch_errors later)) = []"
    by (auto simp: filter_empty_conv)
  have o: "outcomes ?st = Cancelled # map outcome_of (launch_errors later)"
    by (simp add: outcomes_def n cancelled_message_def)
  have c1: "length (filter (\<lambda>out. out = Cancelled) (outcomes ?st)) = 1"
    unfolding o using nc by simp
  have c2: "Success \<notin> set (outcomes ?st)"
    unfolding o using f by auto
  have c3: "\<forall>code. exit_code_message code \<notin> set (notifications ?st)"
    unfolding n using launch_errors_outcomes
    by (simp add: cancelled_message_def exit_code_message_def)
  have c4: "(\<forall>e \<in> set later. \<not> is_proc_error e) \<longrightarrow> outcomes ?st = [Cancelled]"
    unfolding o by (simp add: launch_errors_none)
  from k c1 c2 c3 c4 show ?thesis by blast
qed

text \<open>
  Claim C1 fails on the code. The user cancels while the child is alive and has only written
  output, and the host refuses the signal (\<^verbatim>\<open>kill EPERM\<close>): \<^verbatim>\<open>kill()\<close> emits \<^verbatim>\<open>error\<close>, whose
  handler has no cancellation guard and reports a launch error, and the cancellation handler
  then reports the cancellation. The run reports Failure and Cancelled, and the child was not
  terminated.
\<close>

theorem cancellation_also_reports_failure:
  "notifications (supervise_kill_refused ''kill EPERM'' [StdoutData ''generating'', CancellationRequested])
     = [ErrorMessage ''Launch error: kill EPERM'',
        WarningMessage ''Qodo Plus: The test generation process has been cancelled'']
   \<and> outcomes (supervise_kill_refused ''kill EPERM'' [StdoutData ''generating'', CancellationRequested])
       = [Failure, Cancelled]
   \<and> killCalls (supervise_kill_refused ''kill EPERM'' [StdoutData ''generating'', CancellationRequested])
       = 1
   \<and> resolveCalls (supervise_kill_refused ''kill EPERM'' [StdoutData ''generating'', CancellationRequested])
       = 2"
  by (simp add: supervise_kill_refused_def spawned_def onData_def onError_def
        outcomes_def onCancellationRequested_def childProcess_kill_def cancelled_message_def
        launch_error_message_def)

subsection \<open>Environment bootstrap\<close>

text \<open>
  Claim C7. When the executable exists at its path under the virtual environment
  (\<^verbatim>\<open>Scripts/cover-agent.exe\<close> on Windows, \<^verbatim>\<open>bin/cover-agent\<close> otherwise),
  \<^verbatim>\<open>setupPythonEnvironment\<close> returns \<^verbatim>\<open>true\<close> at once and leaves the host as it was: no
  command is issued, neither to create the environment nor to install the dependencies.
\<close>

theorem existing_executable_skips_installation:
  assumes "coverAgentPath join isWindows extensionPath \<in> files h"
  shows "setup_begin join isWindows extensionPath h = (Returned True, h)
    \<and> setupPythonEnvironment exec join isWindows extensionPath h = (True, h)
    \<and> commands (snd (setupPythonEnvironment exec join isWindows extensionPath h)) = commands h"
  using assms by (simp add: setup_begin_def setupPythonEnvironment_def)

theorem existing_executable_skips_installation_witness:
  "coverAgentPath path_join False ''/ext'' = ''/ext/python_service/qodo-cover/venv/bin/cover-agent''
   \<and> setupPythonEnvironment (\<lambda>c. ExecFailed ''not run'') path_join False ''/ext''
        (fresh_host\<lparr> files := {''/ext/python_service/qodo-cover/venv/bin/cover-agent''} \<rparr>)
       = (True, fresh_host\<lparr> files := {''/ext/python_service/qodo-cover/venv/bin/cover-agent''} \<rparr>)"
proof -
  have p: "coverAgentPath path_join False ''/ext''
             = ''/ext/python_service/qodo-cover/venv/bin/cover-agent''"
    by code_simp
  then have "coverAgentPath path_join False ''/ext''
      \<in> files (fresh_host\<lparr> files := {''/ext/python_service/qodo-cover/venv/bin/cover-agent''} \<rparr>)"
    by simp
  from existing_executable_skips_installation [OF this, of "\<lambda>c. ExecFailed ''not run''"] p
  show ?thesis by simp
qed

text \<open>
  Claim C9, as stated, fails: the function keeps no record of a bootstrap in progress. Two
  triggers before the executable exists each find it missing and each start
  \<^verbatim>\<open>python3 -3.11 -m venv venv\<close> in the same directory; both are then in progress.
\<close>

theorem overlapping_triggers_install_twice:
  "in_flight (loop_run path_join False ''/ext'' idle_system [Trigger, Trigger]) = 2
   \<and> commands (system_host (loop_run path_join False ''/ext'' idle_system [Trigger, Trigger]))
       = [(''python3 -3.11 -m venv venv'', ''/ext/python_service/qodo-cover''),
          (''python3 -3.11 -m venv venv'', ''/ext/python_service/qodo-cover'')]"
  by code_simp

lemma resume_not_more_pending:
  "pending (fst (setup_resume join isWindows extensionPath task result h)) \<Longrightarrow> pending task"
  by (cases task; cases result) (simp_all add: setup_failed_def)

lemma filter_update_le:
  "(P y \<Longrightarrow> P (xs ! i)) \<Longrightarrow> i < length xs \<Longrightarrow>
   length (filter P (xs[i := y])) \<le> length (filter P xs)"
proof (induction xs arbitrary: i)
  case Nil
  then show ?case by simp
next
  case (Cons x xs)
  then show ?case by (cases i) auto
qed

lemma loop_step_in_flight:
  assumes "in_flight sys \<le> 1" and "e = Trigger \<longrightarrow> in_flight sys = 0"
  shows "in_flight (loop_step join isWindows extensionPath sys e) \<le> 1"
proof (cases e)
  case Trigger
  with assms(2) show ?thesis
    by (simp add: in_flight_def split: prod.splits)
next
  case (ExecDone i result)
  show ?thesis
  proof (cases "i < length (tasks sys)")
    case True
    obtain task h where r: "setup_resume join isWindows extensionPath (tasks sys ! i) result
                              (system_host sys) = (task, h)"
      by (cases "setup_resume join isWindows extensionPath (tasks sys ! i) result (system_host sys)")
    have "pending task \<Longrightarrow> pending (tasks sys ! i)"
      using resume_not_more_pending [of join isWindows extensionPath "tasks sys ! i" result
              "system_host sys"] r by simp
    from filter_update_le [of pending task "tasks sys" i, OF this True]
    have "length (filter pending ((tasks sys)[i := task])) \<le> length (filter pending (tasks sys))"
      by simp
    with assms(1) ExecDone True r show ?thesis by (simp add: in_flight_def)
  next
    case False
    with assms(1) ExecDone show ?thesis by simp
  qed
next
  case (FileAppears p)
  with assms(1) show ?thesis by (simp add: in_flight_def)
qed

lemma non_overlapping_in_flight:
  "in_flight sys \<le> 1 \<Longrightarrow> non_overlapping join isWindows extensionPath sys events \<Longrightarrow>
   in_flight (foldl (loop_step join isWindows extensionPath) sys events) \<le> 1"
proof (induction events arbitrary: sys)
  case Nil
  then show ?case by simp
next
  case (Cons e es)
  from Cons.prems have "in_flight (loop_step join isWindows extensionPath sys e) \<le> 1"
    using loop_step_in_flight [of sys e join isWindows extensionPath] by simp
  with Cons show ?case by simp
qed

lemma non_overlapping_take:
  "non_overlapping join isWindows extensionPath sys events \<Longrightarrow>
   non_overlapping join isWindows extensionPath sys (take n events)"
proof (induction events arbitrary: sys n)
  case Nil
  then show ?case by simp
next
  case (Cons e es)
  then show ?case by (cases n) simp_all
qed

lemma trigger_without_executable:
  assumes "coverAgentPath join isWindows extensionPath \<notin> files (system_host sys)"
  shows "in_flight (loop_step join isWindows extensionPath sys Trigger) = Suc (in_flight sys)
    \<and> commands (system_host (loop_step join isWindows extensionPath sys Trigger))
        = commands (system_host sys) @ [(venv_command isWindows, qodoCoverDir join extensionPath)]"
  using assms by (simp add: setup_begin_def in_flight_def)

lemma trigger_with_executable:
  assumes "coverAgentPath join isWindows extensionPath \<in> files (system_host sys)"
  shows "in_flight (loop_step join isWindows extensionPath sys Trigger) = in_flight sys
    \<and> commands (system_host (loop_step join isWindows extensionPath sys Trigger))
        = commands (system_host sys)"
  using assms by (simp add: setup_begin_def in_flight_def)

lemma completion_starts_nothing:
  "in_flight (loop_step join isWindows extensionPath sys (ExecDone i result)) \<le> in_flight sys"
proof (cases "i < length (tasks sys)")
  case True
  obtain task h where r: "setup_resume join isWindows extensionPath (tasks sys ! i) result
                            (system_host sys) = (task, h)"
    by (cases "setup_resume join isWindows extensionPath (tasks sys ! i) result (system_host sys)")
  have "pending task \<Longrightarrow> pending (tasks sys ! i)"
    using resume_not_more_pending [of join isWindows extensionPath "tasks sys ! i" result
            "system_host sys"] r by simp
  from filter_update_le [of pending task "tasks sys" i, OF this True]
  have "length (filter pending ((tasks sys)[i := task])) \<le> length (filter pending (tasks sys))"
    by simp
  with True r show ?thesis by (simp add: in_flight_def)
next
  case False
  then show ?thesis by simp
qed

text \<open>
  Claim C9, amended. The bootstrap keeps no record of a bootstrap in progress. A trigger that
  finds the executable missing starts one more environment creation, with its own
  \<^verbatim>\<open>venv\<close> command in the same directory, whatever is already in progress; a trigger that
  finds the executable starts none; the completion of a command and the appearance of a file
  start none. So at most one environment creation or installation is in progress at any
  moment of a run in which every trigger arrives while none is in progress.
\<close>

theorem bootstrap_has_no_in_flight_guard:
  "(coverAgentPath join isWindows extensionPath \<notin> files (system_host sys) \<longrightarrow>
      in_flight (loop_step join isWindows extensionPath sys Trigger) = Suc (in_flight sys)
      \<and> commands (system_host (loop_step join isWindows extensionPath sys Trigger))
          = commands (system_host sys) @ [(venv_command isWindows, qodoCoverDir join extensionPath)])
   \<and> (coverAgentPath join isWindows extensionPath \<in> files (system_host sys) \<longrightarrow>
      in_flight (loop_step join isWindows extensionPath sys Trigger) = in_flight sys
      \<and> commands (system_host (loop_step join isWindows extensionPath sys Trigger))
          = commands (system_host sys))
   \<and> in_flight (loop_step join isWindows extensionPath sys (ExecDone i result)) \<le> in_flight sys
   \<and> in_flight (loop_step join isWindows extensionPath sys (FileAppears p)) = in_flight sys
   \<and> (in_flight sys \<le> 1 \<and> non_overlapping join isWindows extensionPath sys events \<longrightarrow>
        in_flight (loop_run join isWindows extensionPath sys (take n events)) \<le> 1)"
proof (intro conjI)
  show "coverAgentPath join isWindows extensionPath \<notin> files (system_host sys) \<longrightarrow>
      in_flight (loop_step join isWindows extensionPath sys Trigger) = Suc (in_flight sys)
      \<and> commands (system_host (loop_step join isWindows extensionPath sys Trigger))
          = commands (system_host sys) @ [(venv_command isWindows, qodoCoverDir join extensionPath)]"
    using trigger_without_executable by blast
  show "coverAgentPath join isWindows extensionPath \<in> files (system_host sys) \<longrightarrow>
      in_flight (loop_step join isWindows extensionPath sys Trigger) = in_flight sys
      \<and> commands (system_host (loop_step join isWindows extensionPath sys Trigger))
          = commands (system_host sys)"
    using trigger_with_executable by blast
  show "in_flight (loop_step join isWindows extensionPath sys (ExecDone i result)) \<le> in_flight sys"
    by (rule completion_starts_nothing)
  show "in_flight (loop_step join isWindows extensionPath sys (FileAppears p)) = in_flight sys"
    by (simp add: in_flight_def)
  show "in_flight sys \<le> 1 \<and> non_overlapping join isWindows extensionPath sys events \<longrightarrow>
        in_flight (loop_run join isWindows extensionPath sys (take n events)) \<le> 1"
    unfolding loop_run_def
    using non_overlapping_in_flight non_overlapping_take by blast
qed

theorem bootstrap_has_no_in_flight_guard_witness:
  "in_flight (loop_step path_join False ''/ext''
       (loop_run path_join False ''/ext'' idle_system [Trigger, ExecDone 0 (ExecOk [] [])]) Trigger)
     = 2
   \<and> commands (system_host (loop_step path_join False ''/ext''
       (loop_run path_join False ''/ext'' idle_system [Trigger, ExecDone 0 (ExecOk [] [])]) Trigger))
     = [(''python3 -3.11 -m venv venv'', ''/ext/python_service/qodo-cover''),
        (''venv/bin/pip install -e .'', ''/ext/python_service/qodo-cover''),
        (''python3 -3.11 -m venv venv'', ''/ext/python_service/qodo-cover'')]
   \<and> in_flight (loop_step path_join False ''/ext''
       (loop_run path_join False ''/ext'' idle_system
          [Trigger, FileAppears ''/ext/python_service/qodo-cover/venv/bin/cover-agent'']) Trigger)
     = 1
   \<and> in_flight (loop_run path_join False ''/ext'' idle_system
        (take 4 [Trigger, ExecDone 0 (ExecOk [] []), ExecDone 0 (ExecFailed ''pip failed''), Trigger]))
       \<le> 1"
proof -
  let ?busy = "loop_run path_join False ''/ext'' idle_system [Trigger, ExecDone 0 (ExecOk [] [])]"
  let ?agent = "''/ext/python_service/qodo-cover/venv/bin/cover-agent''"
  let ?installed = "loop_run path_join False ''/ext'' idle_system [Trigger, FileAppears ?agent]"
  have p: "coverAgentPath path_join False ''/ext'' = ?agent" by code_simp
  have b: "in_flight ?busy = 1"
    "commands (system_host ?busy) =
       [(''python3 -3.11 -m venv venv'', ''/ext/python_service/qodo-cover''),
        (''venv/bin/pip install -e .'', ''/ext/python_service/qodo-cover'')]"
    by code_simp+
  have bf: "files (system_host ?busy) = {}" 
    by (simp add: loop_run_def idle_system_def fresh_host_def setup_begin_def)
  have missing: "coverAgentPath path_join False ''/ext'' \<notin> files (system_host ?busy)"
    unfolding bf by simp
  have i: "in_flight ?installed = 1" by code_simp
  have "?agent \<in> files (system_host ?installed)"
    by (simp add: loop_run_def idle_system_def fresh_host_def setup_begin_def)
  then have present: "coverAgentPath path_join False ''/ext'' \<in> files (system_host ?installed)"
    unfolding p .
  have a: "in_flight idle_system \<le> 1" by code_simp
  have n: "non_overlapping path_join False ''/ext'' idle_system
        [Trigger, ExecDone 0 (ExecOk [] []), ExecDone 0 (ExecFailed ''pip failed''), Trigger]"
    by code_simp
  note T = bootstrap_has_no_in_flight_guard [where join = path_join and isWindows = False
             and extensionPath = "''/ext''"]
  have 1: "in_flight (loop_step path_join False ''/ext'' ?busy Trigger) = Suc (in_flight ?busy)
      \<and> commands (system_host (loop_step path_join False ''/ext'' ?busy Trigger))
          = commands (system_host ?busy) @ [(venv_command False, qodoCoverDir path_join ''/ext'')]"
    by (rule mp [OF T [where sys = ?busy, THEN conjunct1]]) (rule missing)
  have 2: "in_flight (loop_step path_join False ''/ext'' ?installed Trigger) = in_flight ?installed
      \<and> commands (system_host (loop_step path_join False ''/ext'' ?installed Trigger))
          = commands (system_host ?installed)"
    by (rule mp [OF T [where sys = ?installed, THEN conjunct2, THEN conjunct1]]) (rule present)
  have 3: "in_flight (loop_run path_join False ''/ext'' idle_system
        (take 4 [Trigger, ExecDone 0 (ExecOk [] []), ExecDone 0 (ExecFailed ''pip failed''), Trigger]))
       \<le> 1"
    by (rule mp [OF T [where sys = idle_system, THEN conjunct2, THEN conjunct2, THEN conjunct2,
                      THEN conjunct2]]) (intro conjI a n)
  have c: "venv_command False = ''python3 -3.11 -m venv venv''"
    "qodoCoverDir path_join ''/ext'' = ''/ext/python_service/qodo-cover''"
    by code_simp+
  from 1 2 3 b i c show ?thesis by simp
qed

end
